theory Spec2Isabelle
  imports Main "HOL-Library.Word"
begin

unbundle bit_operations_syntax

section \<open>Arrays\<close>

text \<open>
  The pipeline of \<^verbatim>\<open>scanimate.py\<close> works on one numpy array \<^verbatim>\<open>img\<close> of shape
  (frames, height, width, channels) and dtype uint8, as \<^verbatim>\<open>imageio.mimread\<close> gives it
  for a GIF. An array is a rectangular nested list, outermost axis first; a pixel is the
  list of its channel values. The exceptions the code can raise are values of
  \<open>error\<close>.
\<close>

datatype error = ValueError | IndexError | NameError

type_synonym 'a array3 = "'a list list list"
type_synonym 'a array4 = "'a list list list list"

definition shape3 :: "nat \<Rightarrow> nat \<Rightarrow> nat \<Rightarrow> 'a array3 \<Rightarrow> bool" where
  "shape3 h w c a \<longleftrightarrow>
     length a = h \<and> list_all (\<lambda>r. length r = w \<and> list_all (\<lambda>p. length p = c) r) a"

definition shape4 :: "nat \<Rightarrow> nat \<Rightarrow> nat \<Rightarrow> nat \<Rightarrow> 'a array4 \<Rightarrow> bool" where
  "shape4 n h w c a \<longleftrightarrow> length a = n \<and> list_all (shape3 h w c) a"

text \<open>\<^verbatim>\<open>np.zeros_like(img)\<close>: same shape and dtype, every cell 0.\<close>

definition zeros_like :: "8 word array4 \<Rightarrow> 8 word array4" where
  "zeros_like img = map (map (map (map (\<lambda>_. 0)))) img"

text \<open>
  \<^verbatim>\<open>a[start::step] = ...\<close> along one axis, for \<open>0 < step\<close>: the entries at
  \<open>start, start + step, ...\<close> are rewritten by \<open>f\<close>, the others are kept. numpy refuses
  a zero step with ValueError; the callers test for it before they come here.
\<close>

definition slice_assign :: "nat \<Rightarrow> nat \<Rightarrow> ('a \<Rightarrow> 'a) \<Rightarrow> 'a list \<Rightarrow> 'a list" where
  "slice_assign start step f xs =
     map (\<lambda>j. if start \<le> j \<and> (j - start) mod step = 0 then f (xs ! j) else xs ! j)
       [0..<length xs]"

text \<open>\<^verbatim>\<open>grid[:,:,i::step,:] = 1\<close>: every frame, every row, the columns of the slice, every channel.\<close>

definition hgrid_assign :: "nat \<Rightarrow> nat \<Rightarrow> 8 word array4 \<Rightarrow> 8 word array4" where
  "hgrid_assign i step grid = map (map (slice_assign i step (map (\<lambda>_. 1)))) grid"

text \<open>\<^verbatim>\<open>grid[:,i::step,:,:] = 1\<close>: every frame, the rows of the slice, every column, every channel.\<close>

definition vgrid_assign :: "nat \<Rightarrow> nat \<Rightarrow> 8 word array4 \<Rightarrow> 8 word array4" where
  "vgrid_assign i step grid = map (slice_assign i step (map (map (\<lambda>_. 1)))) grid"

text \<open>
  \<^verbatim>\<open>np.roll(a, shift, axis)\<close> along one axis of length \<open>n\<close>: numpy reduces the shift
  modulo \<open>n\<close> (modulo 1 on an empty axis), then copies \<^verbatim>\<open>a[:-offset]\<close> to
  \<^verbatim>\<open>result[offset:]\<close> and \<^verbatim>\<open>a[-offset:]\<close> to \<^verbatim>\<open>result[:offset]\<close>.
\<close>

definition roll :: "nat \<Rightarrow> 'a list \<Rightarrow> 'a list" where
  "roll shift xs =
     (let n = length xs; offset = shift mod (if n = 0 then 1 else n)
      in drop (n - offset) xs @ take (n - offset) xs)"

text \<open>On one frame, of shape (height, width, channels): axis 0 is the rows, axis 1 the columns.\<close>

definition roll_axis0 :: "nat \<Rightarrow> 'a array3 \<Rightarrow> 'a array3" where
  "roll_axis0 shift frame = roll shift frame"

definition roll_axis1 :: "nat \<Rightarrow> 'a array3 \<Rightarrow> 'a array3" where
  "roll_axis1 shift frame = map (roll shift) frame"

text \<open>
  \<^verbatim>\<open>for i in range(1, len(grid)): grid[i] = np.roll(grid[i], i*stripewidth, axis=...)\<close>
\<close>

definition roll_frames ::
  "(nat \<Rightarrow> 'a array3 \<Rightarrow> 'a array3) \<Rightarrow> nat \<Rightarrow> 'a array4 \<Rightarrow> 'a array4" where
  "roll_frames rollf stripewidth grid =
     fold (\<lambda>i g. g[i := rollf (i * stripewidth) (g ! i)]) [1..<length grid] grid"

section \<open>The pipeline of scanimate.py\<close>

text \<open>
  Lines 69 to 93 of \<^verbatim>\<open>main\<close>: the grid is allocated with the shape of the frame
  stack, striped, and frame \<open>i\<close> is rolled by \<open>i * stripewidth\<close>. The step of the slice
  is \<^verbatim>\<open>img.shape[0]*args.stripewidth\<close>; the slice is evaluated only when the loop over
  \<^verbatim>\<open>range(args.stripewidth)\<close> runs, and then a zero step is numpy's ValueError. A
  pattern other than the two names leaves the grid zero. The stripe width is a natural
  number here: \<^verbatim>\<open>range\<close> of a negative number is empty, as \<^verbatim>\<open>range(0)\<close> is.
\<close>

definition build_grid :: "string \<Rightarrow> nat \<Rightarrow> 8 word array4 \<Rightarrow> error + 8 word array4" where
  "build_grid pattern stripewidth img =
     (let grid = zeros_like img; step = length img * stripewidth in
      if pattern = ''hgrid'' then
        (if 0 < stripewidth \<and> step = 0 then Inl ValueError
         else Inr (roll_frames roll_axis1 stripewidth
                (fold (\<lambda>i g. hgrid_assign i step g) [0..<stripewidth] grid)))
      else if pattern = ''vgrid'' then
        (if 0 < stripewidth \<and> step = 0 then Inl ValueError
         else Inr (roll_frames roll_axis0 stripewidth
                (fold (\<lambda>i g. vgrid_assign i step g) [0..<stripewidth] grid)))
      else Inr grid)"

text \<open>
  \<^verbatim>\<open>a[..., -1] = v\<close>: the last entry of every pixel. On a channel axis of length 0
  the index -1 is out of bounds, numpy's IndexError.
\<close>

definition set_last :: "'a \<Rightarrow> 'a list \<Rightarrow> 'a list" where
  "set_last v p = p[length p - 1 := v]"

definition last_assign3 :: "'a \<Rightarrow> 'a array3 \<Rightarrow> error + 'a array3" where
  "last_assign3 v a =
     (if list_ex (list_ex (\<lambda>p. p = [])) a then Inl IndexError
      else Inr (map (map (set_last v)) a))"

definition last_assign4 :: "'a \<Rightarrow> 'a array4 \<Rightarrow> error + 'a array4" where
  "last_assign4 v a =
     (if list_ex (list_ex (list_ex (\<lambda>p. p = []))) a then Inl IndexError
      else Inr (map (map (map (set_last v))) a))"

text \<open>Lines 69 to 95: the grid with \<^verbatim>\<open>grid[:,:,:,-1] = 1\<close> applied.\<close>

definition main_grid :: "string \<Rightarrow> nat \<Rightarrow> 8 word array4 \<Rightarrow> error + 8 word array4" where
  "main_grid pattern stripewidth img =
     (case build_grid pattern stripewidth img of
        Inl e \<Rightarrow> Inl e
      | Inr grid \<Rightarrow> last_assign4 1 grid)"

text \<open>
  Lines 98 to 103. The product and the sum are taken in float32. The operands are
  integers below 256, so every product is an integer below \<open>2 ^ 16\<close>, exact in float32,
  and the model computes it in \<open>nat\<close>. The two arrays have the same shape, so the
  product is cell by cell.
\<close>

definition mul4 :: "8 word array4 \<Rightarrow> 8 word array4 \<Rightarrow> nat array4" where
  "mul4 a b = map2 (map2 (map2 (map2 (\<lambda>x y. unat x * unat y)))) a b"

text \<open>
  \<^verbatim>\<open>np.sum(res, axis=0)\<close> adds the frames cell by cell, in float32; the result has the
  shape of one frame. The float32 sum of the values of one cell is the parameter
  \<open>np_sum\<close>: numpy fixes neither the order of the additions nor, past \<open>2 ^ 24\<close>, the
  rounded result in terms of the exact sum. What float32 does guarantee is
  \<open>float32_exact\<close>: the values are natural numbers, so while their exact sum is below
  \<open>2 ^ 24\<close> every partial sum is a natural number below \<open>2 ^ 24\<close>, nothing is rounded
  and the result is the exact sum. (From \<open>2 ^ 24\<close> on every float32 value is an integer,
  so the result is a natural number in every case.) The exact sum is \<open>sum_list\<close>.
\<close>

definition sum_axis0 :: "(nat list \<Rightarrow> nat) \<Rightarrow> nat array4 \<Rightarrow> nat array3" where
  "sum_axis0 np_sum a =
     (case a of
        [] \<Rightarrow> []
      | f0 # _ \<Rightarrow>
          map (\<lambda>r. map (\<lambda>c. map (\<lambda>ch. np_sum (map (\<lambda>f. f ! r ! c ! ch) a))
                 [0..<length (f0 ! r ! c)]) [0..<length (f0 ! r)]) [0..<length f0])"

definition float32_exact :: "(nat list \<Rightarrow> nat) \<Rightarrow> bool" where
  "float32_exact np_sum \<longleftrightarrow> (\<forall>xs. sum_list xs < 2 ^ 24 \<longrightarrow> np_sum xs = sum_list xs)"

text \<open>
  \<^verbatim>\<open>res.astype(np.uint8)\<close> on a float that holds a natural number: the conversion
  keeps the low eight bits. Nothing in the code clips the value first.
\<close>

definition astype_uint8 :: "nat \<Rightarrow> 8 word" where
  "astype_uint8 x = of_nat x"

definition main_res ::
  "(nat list \<Rightarrow> nat) \<Rightarrow> 8 word array4 \<Rightarrow> 8 word array4 \<Rightarrow> error + 8 word array3" where
  "main_res np_sum img grid =
     (case last_assign3 255 (sum_axis0 np_sum (mul4 img grid)) of
        Inl e \<Rightarrow> Inl e
      | Inr res \<Rightarrow> Inr (map (map (map astype_uint8)) res))"

text \<open>The computation of \<^verbatim>\<open>main\<close> between reading the GIF and showing the result:
  the scanimation \<^verbatim>\<open>res\<close> and the stack of phase grids.\<close>

definition scanimate_main ::
  "(nat list \<Rightarrow> nat) \<Rightarrow> string \<Rightarrow> nat \<Rightarrow> 8 word array4 \<Rightarrow>
     error + (8 word array3 \<times> 8 word array4)" where
  "scanimate_main np_sum pattern stripewidth img =
     (case main_grid pattern stripewidth img of
        Inl e \<Rightarrow> Inl e
      | Inr grid \<Rightarrow>
          (case main_res np_sum img grid of
             Inl e \<Rightarrow> Inl e
           | Inr res \<Rightarrow> Inr (res, grid)))"

text \<open>
  The second example of the script block of \<^verbatim>\<open>moire.py\<close> (lines 152 to 178) is the
  same computation for horizontal stripes, with the stripe width of the script, on the
  frames it has read. It sets the last channel of the grids before it rolls them.
\<close>

definition moire_main ::
  "(nat list \<Rightarrow> nat) \<Rightarrow> nat \<Rightarrow> 8 word array4 \<Rightarrow> error + (8 word array3 \<times> 8 word array4)" where
  "moire_main np_sum stripe_width img =
     (let grid = zeros_like img; step = length img * stripe_width in
      if 0 < stripe_width \<and> step = 0 then Inl ValueError
      else
        (case last_assign4 1 (fold (\<lambda>i g. hgrid_assign i step g) [0..<stripe_width] grid) of
           Inl e \<Rightarrow> Inl e
         | Inr grid \<Rightarrow>
             (let grid = roll_frames roll_axis1 stripe_width grid in
              case main_res np_sum img grid of
                Inl e \<Rightarrow> Inl e
              | Inr res \<Rightarrow> Inr (res, grid))))"

section \<open>The class Moire\<close>

text \<open>
  The two copies of \<^verbatim>\<open>moire.py\<close> declare the same class. An object holds the
  three constructor arguments, \<^verbatim>\<open>_replications\<close> and the array \<^verbatim>\<open>grid\<close>, a
  float64 square whose cells are 0.0 and 1.0 (integers here). The numbers are Python
  integers.
\<close>

record Moire =
  self_pattern :: string
  self_stripe_width :: int
  self_num_frames :: int
  self_replications :: int
  self_grid :: "int list list"

text \<open>
  \<^verbatim>\<open>self.grid[0::self._num_frames] = 1\<close> on the rows: a positive step takes the rows
  \<open>0, step, 2 * step, ...\<close>; a negative step walks down from row 0 and takes row 0
  alone; a zero step is refused by the caller.
\<close>

definition rows_assign :: "int \<Rightarrow> int list list \<Rightarrow> int list list" where
  "rows_assign step g =
     (if 0 < step then slice_assign 0 (nat step) (map (\<lambda>_. 1)) g
      else (case g of [] \<Rightarrow> [] | r # rs \<Rightarrow> map (\<lambda>_. 1) r # rs))"

text \<open>
  \<^verbatim>\<open>make_grid\<close>: \<^verbatim>\<open>np.zeros((size, size))\<close> raises ValueError on a negative
  size, before anything is assigned; the slice raises ValueError on a zero step.
\<close>

definition make_grid :: "Moire \<Rightarrow> error + Moire" where
  "make_grid self =
     (let size = self_stripe_width self * self_num_frames self * self_replications self in
      if size < 0 then Inl ValueError
      else if self_num_frames self = 0 then Inl ValueError
      else Inr (self\<lparr>self_grid :=
             rows_assign (self_num_frames self)
               (replicate (nat size) (replicate (nat size) 0))\<rparr>))"

text \<open>
  \<^verbatim>\<open>__init__\<close> stores its arguments, sets \<^verbatim>\<open>_replications = 24\<close> and calls
  \<^verbatim>\<open>make_grid\<close>; the attribute \<^verbatim>\<open>grid\<close> does not exist before that call, and the
  empty list stands for it.
\<close>

definition Moire_init :: "string \<Rightarrow> int \<Rightarrow> int \<Rightarrow> error + Moire" where
  "Moire_init pattern stripe_width num_frames =
     make_grid \<lparr>self_pattern = pattern, self_stripe_width = stripe_width,
       self_num_frames = num_frames, self_replications = 24, self_grid = []\<rparr>"

text \<open>The property \<^verbatim>\<open>replications\<close> and its setter.\<close>

definition replications :: "Moire \<Rightarrow> int" where
  "replications self = self_replications self"

definition replications_setter :: "Moire \<Rightarrow> int \<Rightarrow> Moire" where
  "replications_setter self val = self\<lparr>self_replications := val\<rparr>"

text \<open>
  \<^verbatim>\<open>__call__\<close> tests \<^verbatim>\<open>len(arr) == num_frames\<close>. The name \<^verbatim>\<open>num_frames\<close> is
  neither a parameter nor a local of the method, so Python looks it up among the globals
  of the module (a map from names to values) and raises NameError when it is not there.
  After the test the body is \<^verbatim>\<open>pass\<close>.
\<close>

definition Moire_call :: "(string \<rightharpoonup> int) \<Rightarrow> Moire \<Rightarrow> 'a list \<Rightarrow> error + unit" where
  "Moire_call globals self arr =
     (case globals ''num_frames'' of
        None \<Rightarrow> Inl NameError
      | Some num_frames \<Rightarrow>
          if \<not> (int (length arr) = num_frames) then Inl ValueError else Inr ())"

text \<open>
  The integer globals of \<^verbatim>\<open>scanimate/moire.py\<close>: none when the module is imported
  (its top level binds \<^verbatim>\<open>np\<close>, \<^verbatim>\<open>plt\<close>, \<^verbatim>\<open>imageio\<close> and \<^verbatim>\<open>Moire\<close>), and the
  control parameters of the demonstration when the file runs as a script.
\<close>

definition globals_imported :: "string \<rightharpoonup> int" where
  "globals_imported = Map.empty"

definition globals_script :: "string \<rightharpoonup> int" where
  "globals_script =
     [''stripe_width'' \<mapsto> 1, ''num_frames'' \<mapsto> 5, ''replications'' \<mapsto> 64, ''size'' \<mapsto> 320]"

section \<open>Names for the statements\<close>

text \<open>
  The striping axis of a pattern is the width for \<^verbatim>\<open>hgrid\<close> (the stripes are sets of
  columns) and the height for \<^verbatim>\<open>vgrid\<close>; the coordinate of a cell along it is its
  column or its row.
\<close>

definition striping_len :: "string \<Rightarrow> nat \<Rightarrow> nat \<Rightarrow> nat" where
  "striping_len pattern h w = (if pattern = ''hgrid'' then w else h)"

definition striping_coord :: "string \<Rightarrow> nat \<Rightarrow> nat \<Rightarrow> nat" where
  "striping_coord pattern r col = (if pattern = ''hgrid'' then col else r)"

text \<open>Frames of one colour, and stacks of them, as inputs.\<close>

definition const_frame :: "nat \<Rightarrow> nat \<Rightarrow> nat \<Rightarrow> 8 word \<Rightarrow> 8 word array3" where
  "const_frame h w c v = replicate h (replicate w (replicate c v))"

definition const_stack :: "nat \<Rightarrow> nat \<Rightarrow> nat \<Rightarrow> 8 word list \<Rightarrow> 8 word array4" where
  "const_stack h w c vs = map (const_frame h w c) vs"

text \<open>
  A frame of shape (h, w, c) with its two spatial axes exchanged, the shape given as numpy
  has it: cell (col, r) of the result is cell (r, col) of the frame.
\<close>

definition transpose_hw :: "nat \<Rightarrow> nat \<Rightarrow> 'a array3 \<Rightarrow> 'a array3" where
  "transpose_hw h w f = map (\<lambda>col. map (\<lambda>r. f ! r ! col) [0..<h]) [0..<w]"

section \<open>Shapes and cells\<close>

lemma shape3_iff:
  "shape3 h w c a \<longleftrightarrow>
     length a = h \<and> (\<forall>r<h. length (a ! r) = w \<and> (\<forall>col<w. length (a ! r ! col) = c))"
  by (auto simp: shape3_def list_all_length)

lemma shape4_iff:
  "shape4 n h w c a \<longleftrightarrow> length a = n \<and> (\<forall>k<n. shape3 h w c (a ! k))"
  by (auto simp: shape4_def list_all_length)

lemma shape3_ext:
  assumes "shape3 h w c a" "shape3 h w c b"
    and "\<And>r col ch. r < h \<Longrightarrow> col < w \<Longrightarrow> ch < c \<Longrightarrow> a ! r ! col ! ch = b ! r ! col ! ch"
  shows "a = b"
proof (rule nth_equalityI)
  show "length a = length b" using assms(1,2) by (simp add: shape3_iff)
next
  fix r assume r: "r < length a"
  then have rh: "r < h" using assms(1) by (simp add: shape3_iff)
  show "a ! r = b ! r"
  proof (rule nth_equalityI)
    show "length (a ! r) = length (b ! r)" using assms(1,2) rh by (simp add: shape3_iff)
  next
    fix col assume "col < length (a ! r)"
    then have cw: "col < w" using assms(1) rh by (simp add: shape3_iff)
    show "a ! r ! col = b ! r ! col"
    proof (rule nth_equalityI)
      show "length (a ! r ! col) = length (b ! r ! col)"
        using assms(1,2) rh cw by (simp add: shape3_iff)
    next
      fix ch assume "ch < length (a ! r ! col)"
      then have "ch < c" using assms(1) rh cw by (simp add: shape3_iff)
      then show "a ! r ! col ! ch = b ! r ! col ! ch" using assms(3) rh cw by simp
    qed
  qed
qed

lemma shape4_ext:
  assumes "shape4 n h w c a" "shape4 n h w c b"
    and "\<And>k r col ch. k < n \<Longrightarrow> r < h \<Longrightarrow> col < w \<Longrightarrow> ch < c \<Longrightarrow>
           a ! k ! r ! col ! ch = b ! k ! r ! col ! ch"
  shows "a = b"
proof (rule nth_equalityI)
  show "length a = length b" using assms(1,2) by (simp add: shape4_iff)
next
  fix k assume "k < length a"
  then have kn: "k < n" using assms(1) by (simp add: shape4_iff)
  show "a ! k = b ! k"
    by (rule shape3_ext [of h w c]) (use assms kn in \<open>auto simp: shape4_iff\<close>)
qed

lemma length_slice_assign [simp]: "length (slice_assign s st f xs) = length xs"
  by (simp add: slice_assign_def)

lemma nth_slice_assign:
  "j < length xs \<Longrightarrow>
     slice_assign s st f xs ! j = (if s \<le> j \<and> (j - s) mod st = 0 then f (xs ! j) else xs ! j)"
  by (simp add: slice_assign_def)

lemma fold_upt_Suc: "fold f [0..<Suc m] g = f m (fold f [0..<m] g)"
  by simp

lemma length_roll [simp]: "length (roll s xs) = length xs"
  by (auto simp: roll_def Let_def)

lemma roll_rotate: "xs \<noteq> [] \<Longrightarrow> roll s xs = rotate (length xs - s mod length xs) xs"
proof -
  assume ne: "xs \<noteq> []"
  let ?n = "length xs"
  let ?d = "?n - s mod ?n"
  have n: "0 < ?n" using ne by simp
  show ?thesis
  proof (cases "s mod ?n = 0")
    case True
    then show ?thesis using n by (simp add: roll_def Let_def)
  next
    case False
    then have "?d < ?n" using n by simp
    then have "?d mod ?n = ?d" by simp
    then show ?thesis using n by (simp add: roll_def Let_def rotate_drop_take)
  qed
qed

lemma nth_roll:
  assumes "j < length xs"
  shows "roll s xs ! j = xs ! ((length xs - s mod length xs + j) mod length xs)"
proof -
  have "xs \<noteq> []" using assms by auto
  then show ?thesis using assms by (simp add: roll_rotate nth_rotate)
qed

lemma shift_back:
  fixes n :: nat
  assumes "j < n"
  shows "(n - s mod n + (j + s) mod n) mod n = j"
proof -
  have n: "0 < n" using assms by simp
  have "(n - s mod n + (j + s) mod n) mod n = (n - s mod n + (j + s)) mod n"
    by (simp add: mod_add_right_eq)
  also have "n - s mod n + (j + s) = j + n * (1 + s div n)"
  proof -
    define q where "q = s div n"
    define m where "m = s mod n"
    have s: "s = n * q + m" by (simp add: q_def m_def)
    have m: "m < n" using n by (simp add: m_def)
    have "n - m + (j + s) = j + n * (1 + q)"
      using m s by (simp add: algebra_simps)
    then show ?thesis by (simp only: q_def m_def)
  qed
  also have "(j + n * (1 + s div n)) mod n = j mod n" by (rule mod_mult_self2)
  also have "j mod n = j" using assms by simp
  finally show ?thesis .
qed

lemma nth_roll_forward:
  assumes "j < length xs"
  shows "roll s xs ! ((j + s) mod length xs) = xs ! j"
proof -
  have ne: "xs \<noteq> []" using assms by auto
  then have lt: "(j + s) mod length xs < length xs" by simp
  have "roll s xs ! ((j + s) mod length xs) =
      xs ! ((length xs - s mod length xs + (j + s) mod length xs) mod length xs)"
    by (rule nth_roll [OF lt])
  also have "\<dots> = xs ! j" by (simp only: shift_back [OF assms])
  finally show ?thesis .
qed

lemma fold_update_frames:
  "b \<le> length g \<Longrightarrow>
     length (fold (\<lambda>i g. g[i := F i (g ! i)]) [a..<b] g) = length g \<and>
     (\<forall>k<length g. fold (\<lambda>i g. g[i := F i (g ! i)]) [a..<b] g ! k =
        (if a \<le> k \<and> k < b then F k (g ! k) else g ! k))"
proof (induction b)
  case 0
  then show ?case by simp
next
  case (Suc b)
  show ?case
  proof (cases "a \<le> b")
    case True
    then show ?thesis using Suc by (auto simp: nth_list_update less_Suc_eq)
  next
    case False
    then show ?thesis by auto
  qed
qed

lemma length_roll_frames [simp]: "length (roll_frames rollf sw g) = length g"
  using fold_update_frames [of "length g" g "\<lambda>i. rollf (i * sw)" 1]
  by (simp add: roll_frames_def)

lemma nth_roll_frames:
  "k < length g \<Longrightarrow> roll_frames rollf sw g ! k = rollf (k * sw) (g ! k)"
  if "\<And>f. rollf 0 f = f"
  using fold_update_frames [of "length g" g "\<lambda>i. rollf (i * sw)" 1] that
  by (cases k) (auto simp: roll_frames_def)

section \<open>The stripes and the roll, cell by cell\<close>

lemma zeros_like_shape: "shape4 n h w c img \<Longrightarrow> shape4 n h w c (zeros_like img)"
  by (auto simp: shape4_iff shape3_iff zeros_like_def)

lemma zeros_like_cell:
  "shape4 n h w c img \<Longrightarrow> k < n \<Longrightarrow> r < h \<Longrightarrow> col < w \<Longrightarrow> ch < c \<Longrightarrow>
     zeros_like img ! k ! r ! col ! ch = 0"
  by (auto simp: shape4_iff shape3_iff zeros_like_def)

lemma hgrid_assign_shape: "shape4 n h w c g \<Longrightarrow> shape4 n h w c (hgrid_assign i step g)"
  by (auto simp: shape4_iff shape3_iff hgrid_assign_def nth_slice_assign)

lemma hgrid_assign_cell:
  "shape4 n h w c g \<Longrightarrow> k < n \<Longrightarrow> r < h \<Longrightarrow> col < w \<Longrightarrow> ch < c \<Longrightarrow>
     hgrid_assign i step g ! k ! r ! col ! ch =
       (if i \<le> col \<and> (col - i) mod step = 0 then 1 else g ! k ! r ! col ! ch)"
  by (auto simp: shape4_iff shape3_iff hgrid_assign_def nth_slice_assign)

lemma vgrid_assign_shape: "shape4 n h w c g \<Longrightarrow> shape4 n h w c (vgrid_assign i step g)"
  by (auto simp: shape4_iff shape3_iff vgrid_assign_def nth_slice_assign)

lemma vgrid_assign_cell:
  "shape4 n h w c g \<Longrightarrow> k < n \<Longrightarrow> r < h \<Longrightarrow> col < w \<Longrightarrow> ch < c \<Longrightarrow>
     vgrid_assign i step g ! k ! r ! col ! ch =
       (if i \<le> r \<and> (r - i) mod step = 0 then 1 else g ! k ! r ! col ! ch)"
  by (auto simp: shape4_iff shape3_iff vgrid_assign_def nth_slice_assign)

lemma hgrid_loop_shape:
  "shape4 n h w c g \<Longrightarrow> shape4 n h w c (fold (\<lambda>i g. hgrid_assign i step g) [0..<m] g)"
  by (induction m) (simp_all add: hgrid_assign_shape)

lemma vgrid_loop_shape:
  "shape4 n h w c g \<Longrightarrow> shape4 n h w c (fold (\<lambda>i g. vgrid_assign i step g) [0..<m] g)"
  by (induction m) (simp_all add: vgrid_assign_shape)

lemma hgrid_loop_cell:
  assumes "shape4 n h w c g" "k < n" "r < h" "col < w" "ch < c"
  shows "fold (\<lambda>i g. hgrid_assign i step g) [0..<m] g ! k ! r ! col ! ch =
           (if \<exists>i. i < m \<and> i \<le> col \<and> (col - i) mod step = 0 then 1
            else g ! k ! r ! col ! ch)"
proof (induction m)
  case 0
  show ?case by simp
next
  case (Suc m)
  have sh: "shape4 n h w c (fold (\<lambda>i g. hgrid_assign i step g) [0..<m] g)"
    using assms(1) by (rule hgrid_loop_shape)
  show ?case
    using Suc hgrid_assign_cell [OF sh assms(2-5), of m step]
    by (auto simp: less_Suc_eq)
qed

lemma vgrid_loop_cell:
  assumes "shape4 n h w c g" "k < n" "r < h" "col < w" "ch < c"
  shows "fold (\<lambda>i g. vgrid_assign i step g) [0..<m] g ! k ! r ! col ! ch =
           (if \<exists>i. i < m \<and> i \<le> r \<and> (r - i) mod step = 0 then 1
            else g ! k ! r ! col ! ch)"
proof (induction m)
  case 0
  show ?case by simp
next
  case (Suc m)
  have sh: "shape4 n h w c (fold (\<lambda>i g. vgrid_assign i step g) [0..<m] g)"
    using assms(1) by (rule vgrid_loop_shape)
  show ?case
    using Suc vgrid_assign_cell [OF sh assms(2-5), of m step]
    by (auto simp: less_Suc_eq)
qed

lemma stripe_test:
  fixes x :: nat
  assumes "sw \<le> p"
  shows "(\<exists>i. i < sw \<and> i \<le> x \<and> (x - i) mod p = 0) \<longleftrightarrow> x mod p < sw"
proof
  assume "\<exists>i. i < sw \<and> i \<le> x \<and> (x - i) mod p = 0"
  then obtain i where "i < sw \<and> i \<le> x \<and> (x - i) mod p = 0" ..
  then have i: "i < sw" "i \<le> x" "(x - i) mod p = 0" by simp_all
  have "p dvd x - i" using i(3) by (rule iffD1 [OF mod_eq_0_iff_dvd])
  then obtain q where q: "x - i = p * q" by (rule dvdE)
  then have xe: "x = i + p * q" using i(2) by linarith
  have "(i + p * q) mod p = i mod p" by (rule mod_mult_self2)
  then have "x mod p = i mod p" by (simp only: xe)
  also have "i mod p = i" using i(1) assms(1) by simp
  finally show "x mod p < sw" using i(1) by simp
next
  assume lt: "x mod p < sw"
  have le: "x mod p \<le> x" by simp
  have "p dvd (x - x mod p)" by (rule dvd_minus_mod)
  then have "(x - x mod p) mod p = 0" by (rule iffD2 [OF mod_eq_0_iff_dvd])
  then have "x mod p < sw \<and> x mod p \<le> x \<and> (x - x mod p) mod p = 0"
    using lt le by simp
  then show "\<exists>i. i < sw \<and> i \<le> x \<and> (x - i) mod p = 0" ..
qed

lemma roll_axis0_zero: "roll_axis0 0 f = f"
  by (simp add: roll_axis0_def roll_def Let_def)

lemma roll_axis1_zero: "roll_axis1 0 f = f"
  by (simp add: roll_axis1_def roll_def Let_def map_idI)

lemma roll_axis1_shape: "shape3 h w c f \<Longrightarrow> shape3 h w c (roll_axis1 s f)"
  by (auto simp: shape3_iff roll_axis1_def nth_roll)

lemma roll_axis0_shape: "shape3 h w c f \<Longrightarrow> shape3 h w c (roll_axis0 s f)"
  by (auto simp: shape3_iff roll_axis0_def nth_roll)

lemma roll_axis1_cell:
  "shape3 h w c f \<Longrightarrow> r < h \<Longrightarrow> col < w \<Longrightarrow>
     roll_axis1 s f ! r ! col = f ! r ! ((w - s mod w + col) mod w)"
  by (auto simp: shape3_iff roll_axis1_def nth_roll)

lemma roll_axis0_cell:
  "shape3 h w c f \<Longrightarrow> r < h \<Longrightarrow> roll_axis0 s f ! r = f ! ((h - s mod h + r) mod h)"
  by (auto simp: shape3_iff roll_axis0_def nth_roll)

lemma roll_frames_shape:
  assumes "shape4 n h w c g" "\<And>f. rollf 0 f = f"
    and "\<And>s f. shape3 h w c f \<Longrightarrow> shape3 h w c (rollf s f)"
  shows "shape4 n h w c (roll_frames rollf sw g)"
  using assms by (auto simp: shape4_iff nth_roll_frames)

lemma hgrid_base_cell:
  assumes "shape4 n h w c img" "0 < n" "k < n" "r < h" "col < w" "ch < c"
  shows "fold (\<lambda>i g. hgrid_assign i (n * sw) g) [0..<sw] (zeros_like img) ! k ! r ! col ! ch =
           (if col mod (n * sw) < sw then 1 else 0)"
proof -
  have le: "sw \<le> n * sw" using assms(2) by simp
  show ?thesis
    using hgrid_loop_cell [OF zeros_like_shape [OF assms(1)] assms(3-6), of "n * sw" sw]
      zeros_like_cell [OF assms(1) assms(3-6)] stripe_test [OF le, of col]
    by simp
qed

lemma vgrid_base_cell:
  assumes "shape4 n h w c img" "0 < n" "k < n" "r < h" "col < w" "ch < c"
  shows "fold (\<lambda>i g. vgrid_assign i (n * sw) g) [0..<sw] (zeros_like img) ! k ! r ! col ! ch =
           (if r mod (n * sw) < sw then 1 else 0)"
proof -
  have le: "sw \<le> n * sw" using assms(2) by simp
  show ?thesis
    using vgrid_loop_cell [OF zeros_like_shape [OF assms(1)] assms(3-6), of "n * sw" sw]
      zeros_like_cell [OF assms(1) assms(3-6)] stripe_test [OF le, of r]
    by simp
qed

lemma build_grid_hgrid:
  assumes "shape4 n h w c img" "0 < n"
  shows "\<exists>g. build_grid ''hgrid'' sw img = Inr g \<and> shape4 n h w c g \<and>
           (\<forall>k<n. \<forall>r<h. \<forall>col<w. \<forall>ch<c. g ! k ! r ! col ! ch =
              (if ((w - (k * sw) mod w + col) mod w) mod (n * sw) < sw then 1 else 0))"
proof -
  let ?b = "fold (\<lambda>i g. hgrid_assign i (n * sw) g) [0..<sw] (zeros_like img)"
  let ?g = "roll_frames roll_axis1 sw ?b"
  have len: "length img = n" using assms(1) by (simp add: shape4_iff)
  have bs: "shape4 n h w c ?b"
    by (rule hgrid_loop_shape [OF zeros_like_shape [OF assms(1)]])
  have eq: "build_grid ''hgrid'' sw img = Inr ?g"
    using assms(2) len by (auto simp: build_grid_def Let_def)
  have gs: "shape4 n h w c ?g"
    by (rule roll_frames_shape [where rollf = roll_axis1, OF bs roll_axis1_zero roll_axis1_shape])
  have "?g ! k ! r ! col ! ch =
      (if ((w - (k * sw) mod w + col) mod w) mod (n * sw) < sw then 1 else 0)"
    if "k < n" "r < h" "col < w" "ch < c" for k r col ch
  proof -
    have bk: "shape3 h w c (?b ! k)" and lb: "k < length ?b"
      using bs that(1) by (simp_all add: shape4_iff)
    have src: "(w - (k * sw) mod w + col) mod w < w" using that(3) by simp
    have "?g ! k = roll_axis1 (k * sw) (?b ! k)"
      by (rule nth_roll_frames [where rollf = roll_axis1, OF roll_axis1_zero lb])
    then have "?g ! k ! r ! col = ?b ! k ! r ! ((w - (k * sw) mod w + col) mod w)"
      using roll_axis1_cell [OF bk that(2,3)] by simp
    then show ?thesis
      using hgrid_base_cell [OF assms that(1,2) src that(4)] by simp
  qed
  then show ?thesis using eq gs by blast
qed

lemma build_grid_vgrid:
  assumes "shape4 n h w c img" "0 < n"
  shows "\<exists>g. build_grid ''vgrid'' sw img = Inr g \<and> shape4 n h w c g \<and>
           (\<forall>k<n. \<forall>r<h. \<forall>col<w. \<forall>ch<c. g ! k ! r ! col ! ch =
              (if ((h - (k * sw) mod h + r) mod h) mod (n * sw) < sw then 1 else 0))"
proof -
  let ?b = "fold (\<lambda>i g. vgrid_assign i (n * sw) g) [0..<sw] (zeros_like img)"
  let ?g = "roll_frames roll_axis0 sw ?b"
  have len: "length img = n" using assms(1) by (simp add: shape4_iff)
  have bs: "shape4 n h w c ?b"
    by (rule vgrid_loop_shape [OF zeros_like_shape [OF assms(1)]])
  have eq: "build_grid ''vgrid'' sw img = Inr ?g"
    using assms(2) len by (auto simp: build_grid_def Let_def)
  have gs: "shape4 n h w c ?g"
    by (rule roll_frames_shape [where rollf = roll_axis0, OF bs roll_axis0_zero roll_axis0_shape])
  have "?g ! k ! r ! col ! ch =
      (if ((h - (k * sw) mod h + r) mod h) mod (n * sw) < sw then 1 else 0)"
    if "k < n" "r < h" "col < w" "ch < c" for k r col ch
  proof -
    have bk: "shape3 h w c (?b ! k)" and lb: "k < length ?b"
      using bs that(1) by (simp_all add: shape4_iff)
    have src: "(h - (k * sw) mod h + r) mod h < h" using that(2) by simp
    have "?g ! k = roll_axis0 (k * sw) (?b ! k)"
      by (rule nth_roll_frames [where rollf = roll_axis0, OF roll_axis0_zero lb])
    then have "?g ! k ! r = ?b ! k ! ((h - (k * sw) mod h + r) mod h)"
      using roll_axis0_cell [OF bk that(2)] by simp
    then show ?thesis
      using vgrid_base_cell [OF assms that(1) src that(3,4)] by simp
  qed
  then show ?thesis using eq gs by blast
qed

lemma build_grid_other:
  assumes "shape4 n h w c img" "pattern \<noteq> ''hgrid''" "pattern \<noteq> ''vgrid''"
  shows "build_grid pattern sw img = Inr (zeros_like img)"
  using assms by (simp add: build_grid_def Let_def)

section \<open>Arithmetic of the phases\<close>

lemma div_eq_band:
  fixes a :: nat
  assumes "0 < sw"
  shows "a div sw = k \<longleftrightarrow> k * sw \<le> a \<and> a < Suc k * sw"
  by (metis assms div_less_iff_less_mult div_nat_eqI lessI mult.commute
    times_div_less_eq_dividend)

lemma wrap_sub:
  fixes a d p :: nat
  assumes "a < p" "d < p"
  shows "(p - d + a) mod p = (if d \<le> a then a - d else p - d + a)"
proof (cases "d \<le> a")
  case True
  have "p - d + a = (a - d) + p" using True assms by linarith
  then have "(p - d + a) mod p = ((a - d) + p) mod p" by (rule arg_cong)
  also have "\<dots> = (a - d) mod p" by (rule mod_add_self2)
  also have "\<dots> = a - d" using assms(1) by (simp add: less_imp_diff_less)
  finally show ?thesis using True by simp
next
  case False
  then have "p - d + a < p" using assms by linarith
  then have "(p - d + a) mod p = p - d + a" by (rule mod_less)
  then show ?thesis using False by simp
qed

lemma reduce_mod:
  fixes w p d col :: nat
  assumes "p dvd w" "0 < w" "d < p"
  shows "(w - d + col) mod p = (p - d + col mod p) mod p"
proof -
  obtain q where q: "w = p * q" using assms(1) by (rule dvdE)
  have "0 < q" using q assms(2) by (cases q) simp_all
  then obtain q' where q': "q = Suc q'" by (cases q) simp_all
  have "w = p + p * q'" using q q' by simp
  then have "w - d + col = (p - d + col) + p * q'" using assms(3) by linarith
  then have "(w - d + col) mod p = ((p - d + col) + p * q') mod p" by (rule arg_cong)
  also have "\<dots> = (p - d + col) mod p" by (rule mod_mult_self2)
  also have "\<dots> = (p - d + col mod p) mod p" by (rule mod_add_right_eq [symmetric])
  finally show ?thesis .
qed

lemma phase_test:
  fixes n sw k w col :: nat
  assumes "0 < sw" "k < n" "(n * sw) dvd w" "0 < w"
  shows "((w - (k * sw) mod w + col) mod w) mod (n * sw) < sw \<longleftrightarrow>
           (col mod (n * sw)) div sw = k"
proof -
  let ?p = "n * sw"
  let ?d = "k * sw"
  let ?a = "col mod ?p"
  have p: "0 < ?p" using assms(1,2) by simp
  have dp: "?d < ?p" using assms(1,2) by simp
  have "?p \<le> w" using assms(3,4) by (rule dvd_imp_le)
  with dp have "?d < w" by (rule less_le_trans)
  then have dw: "?d mod w = ?d" by (rule mod_less)
  have a: "?a < ?p" using p by (rule mod_less_divisor)
  have "Suc k \<le> n" using assms(2) by simp
  then have next_le: "Suc k * sw \<le> ?p" by (rule mult_le_mono1)
  have "((w - ?d + col) mod w) mod ?p = (w - ?d + col) mod ?p"
    using assms(3) by (rule mod_mod_cancel)
  also have "\<dots> = (?p - ?d + ?a) mod ?p"
    using assms(3,4) dp by (rule reduce_mod)
  also have "\<dots> = (if ?d \<le> ?a then ?a - ?d else ?p - ?d + ?a)"
    using a dp by (rule wrap_sub)
  finally have eq: "((w - ?d mod w + col) mod w) mod ?p =
      (if ?d \<le> ?a then ?a - ?d else ?p - ?d + ?a)"
    by (simp only: dw)
  have band: "?a div sw = k \<longleftrightarrow> ?d \<le> ?a \<and> ?a < Suc k * sw"
    using assms(1) by (rule div_eq_band)
  show ?thesis
  proof (cases "?d \<le> ?a")
    case True
    have "?a - ?d < sw \<longleftrightarrow> ?a < Suc k * sw" using True by auto
    then show ?thesis using True eq band by simp
  next
    case False
    have "\<not> ?p - ?d + ?a < sw" using next_le dp by simp
    then show ?thesis using False eq band by simp
  qed
qed

lemma one_hot_sum:
  fixes k0 n :: nat
  assumes "k0 < n"
  shows "(\<Sum>k<n. if k = k0 then 1 else 0) = (1::nat)"
  using assms by simp

section \<open>The alpha channel, the product and the sum, cell by cell\<close>

lemma set_last_cell:
  "ch < length p \<Longrightarrow> set_last v p ! ch = (if ch = length p - 1 then v else p ! ch)"
  by (simp add: set_last_def nth_list_update)

lemma length_set_last [simp]: "length (set_last v p) = length p"
  by (simp add: set_last_def)

lemma last_assign3_ok:
  assumes "shape3 h w c a" "0 < c"
  shows "last_assign3 v a = Inr (map (map (set_last v)) a)"
proof -
  have "\<not> list_ex (list_ex (\<lambda>p. p = [])) a"
    using assms by (fastforce simp: shape3_def list_ex_iff list_all_iff)
  then show ?thesis by (simp add: last_assign3_def)
qed

lemma last_assign4_ok:
  assumes "shape4 n h w c a" "0 < c"
  shows "last_assign4 v a = Inr (map (map (map (set_last v))) a)"
proof -
  have "\<not> list_ex (list_ex (list_ex (\<lambda>p. p = []))) a"
    using assms by (fastforce simp: shape4_def shape3_def list_ex_iff list_all_iff)
  then show ?thesis by (simp add: last_assign4_def)
qed

lemma set_last3_shape:
  "shape3 h w c a \<Longrightarrow> shape3 h w c (map (map (set_last v)) a)"
  by (auto simp: shape3_iff)

lemma set_last3_cell:
  "shape3 h w c a \<Longrightarrow> r < h \<Longrightarrow> col < w \<Longrightarrow> ch < c \<Longrightarrow>
     map (map (set_last v)) a ! r ! col ! ch = (if ch = c - 1 then v else a ! r ! col ! ch)"
  by (auto simp: shape3_iff set_last_cell)

lemma set_last4_shape:
  "shape4 n h w c a \<Longrightarrow> shape4 n h w c (map (map (map (set_last v))) a)"
  by (auto simp: shape4_iff set_last3_shape)

lemma set_last4_cell:
  "shape4 n h w c a \<Longrightarrow> k < n \<Longrightarrow> r < h \<Longrightarrow> col < w \<Longrightarrow> ch < c \<Longrightarrow>
     map (map (map (set_last v))) a ! k ! r ! col ! ch =
       (if ch = c - 1 then v else a ! k ! r ! col ! ch)"
  by (auto simp: shape4_iff set_last3_cell)

lemma mul4_shape:
  "shape4 n h w c a \<Longrightarrow> shape4 n h w c b \<Longrightarrow> shape4 n h w c (mul4 a b)"
  by (auto simp: shape4_iff shape3_iff mul4_def)

lemma mul4_cell:
  "shape4 n h w c a \<Longrightarrow> shape4 n h w c b \<Longrightarrow> k < n \<Longrightarrow> r < h \<Longrightarrow> col < w \<Longrightarrow> ch < c \<Longrightarrow>
     mul4 a b ! k ! r ! col ! ch = unat (a ! k ! r ! col ! ch) * unat (b ! k ! r ! col ! ch)"
  by (auto simp: shape4_iff shape3_iff mul4_def)

lemma sum_list_map_nth: "sum_list (map f xs) = (\<Sum>k<length xs. f (xs ! k))"
proof -
  have "sum_list (map f xs) = (\<Sum>k = 0..<length xs. map f xs ! k)"
    by (simp add: sum_list_sum_nth)
  also have "\<dots> = (\<Sum>k = 0..<length xs. f (xs ! k))"
    by (rule sum.cong) simp_all
  finally show ?thesis by (simp add: atLeast0LessThan)
qed

lemma sum_axis0_shape:
  assumes "shape4 n h w c a" "0 < n"
  shows "shape3 h w c (sum_axis0 np_sum a)"
proof -
  obtain f0 rest where a: "a = f0 # rest"
    using assms by (cases a) (auto simp: shape4_iff)
  have f0: "shape3 h w c f0" using assms a by (auto simp: shape4_def)
  show ?thesis using f0 by (auto simp: a sum_axis0_def shape3_iff)
qed

lemma sum_axis0_cell:
  assumes "shape4 n h w c a" "0 < n" "r < h" "col < w" "ch < c"
  shows "sum_axis0 np_sum a ! r ! col ! ch = np_sum (map (\<lambda>k. a ! k ! r ! col ! ch) [0..<n])"
proof -
  obtain f0 rest where a: "a = f0 # rest"
    using assms by (cases a) (auto simp: shape4_iff)
  have f0: "shape3 h w c f0" using assms a by (auto simp: shape4_def)
  have len: "length a = n" using assms(1) by (simp add: shape4_iff)
  have cell: "sum_axis0 np_sum a ! r ! col ! ch = np_sum (map (\<lambda>f. f ! r ! col ! ch) a)"
    using f0 assms(3-5) by (auto simp: a sum_axis0_def shape3_iff)
  have "map (\<lambda>f. f ! r ! col ! ch) a = map (\<lambda>k. a ! k ! r ! col ! ch) [0..<n]"
    by (rule nth_equalityI) (simp_all add: len)
  then show ?thesis using cell by simp
qed

lemma main_res_cell:
  assumes "shape4 n h w c img" "shape4 n h w c grid" "0 < n" "0 < c"
  shows "\<exists>res. main_res np_sum img grid = Inr res \<and> shape3 h w c res \<and>
           (\<forall>r<h. \<forall>col<w. \<forall>ch<c. res ! r ! col ! ch =
              (if ch = c - 1 then 255
               else astype_uint8 (np_sum (map (\<lambda>k.
                 unat (img ! k ! r ! col ! ch) * unat (grid ! k ! r ! col ! ch)) [0..<n]))))"
proof -
  let ?s = "sum_axis0 np_sum (mul4 img grid)"
  let ?l = "map (map (set_last 255)) ?s"
  let ?res = "map (map (map astype_uint8)) ?l"
  have ms: "shape4 n h w c (mul4 img grid)" using assms(1,2) by (rule mul4_shape)
  have ss: "shape3 h w c ?s" using ms assms(3) by (rule sum_axis0_shape)
  have ls: "shape3 h w c ?l" using ss by (rule set_last3_shape)
  have eq: "main_res np_sum img grid = Inr ?res"
    by (simp add: main_res_def last_assign3_ok [OF ss assms(4)])
  have rs: "shape3 h w c ?res" using ls by (auto simp: shape3_iff)
  have "?res ! r ! col ! ch =
      (if ch = c - 1 then 255
       else astype_uint8 (np_sum (map (\<lambda>k.
         unat (img ! k ! r ! col ! ch) * unat (grid ! k ! r ! col ! ch)) [0..<n])))"
    if "r < h" "col < w" "ch < c" for r col ch
  proof -
    have "?res ! r ! col ! ch = astype_uint8 (?l ! r ! col ! ch)"
      using ls that by (auto simp: shape3_iff)
    also have "?l ! r ! col ! ch = (if ch = c - 1 then 255 else ?s ! r ! col ! ch)"
      using ss that by (rule set_last3_cell)
    also have "?s ! r ! col ! ch = np_sum (map (\<lambda>k. mul4 img grid ! k ! r ! col ! ch) [0..<n])"
      using ms assms(3) that by (rule sum_axis0_cell)
    also have "map (\<lambda>k. mul4 img grid ! k ! r ! col ! ch) [0..<n] =
        map (\<lambda>k. unat (img ! k ! r ! col ! ch) * unat (grid ! k ! r ! col ! ch)) [0..<n]"
      by (rule map_cong) (simp_all add: mul4_cell [OF assms(1,2) _ that])
    finally have e: "?res ! r ! col ! ch =
        astype_uint8 (if ch = c - 1 then 255
          else np_sum (map (\<lambda>k.
            unat (img ! k ! r ! col ! ch) * unat (grid ! k ! r ! col ! ch)) [0..<n]))" .
    have d: "astype_uint8 (if ch = c - 1 then 255 else x) =
        (if ch = c - 1 then 255 else astype_uint8 x)" for x
      by (simp add: astype_uint8_def)
    show ?thesis using e by (simp only: d)
  qed
  then show ?thesis using eq rs by blast
qed

lemma np_sum_exact:
  assumes "float32_exact np_sum" "(\<Sum>k<n. f k) < 2 ^ 24"
  shows "np_sum (map f [0..<n]) = (\<Sum>k<n. f k)"
proof -
  have "sum_list (map f [0..<n]) = (\<Sum>k<n. f k)"
    by (simp add: interv_sum_list_conv_sum_set_nat atLeast0LessThan)
  then show ?thesis using assms by (simp add: float32_exact_def)
qed

lemma float32_exact_sum_list: "float32_exact sum_list"
  by (simp add: float32_exact_def)

section \<open>The phase grids\<close>

lemma const_stack_shape: "shape4 (length vs) h w c (const_stack h w c vs)"
  by (simp add: shape4_def shape3_def const_stack_def const_frame_def list_all_iff)

lemma build_grid_striped:
  assumes "shape4 n h w c img" "0 < n" "pattern = ''hgrid'' \<or> pattern = ''vgrid''"
  shows "\<exists>g. build_grid pattern sw img = Inr g \<and> shape4 n h w c g \<and>
           (\<forall>k<n. \<forall>r<h. \<forall>col<w. \<forall>ch<c. g ! k ! r ! col ! ch =
              (if ((striping_len pattern h w - (k * sw) mod striping_len pattern h w
                     + striping_coord pattern r col) mod striping_len pattern h w)
                   mod (n * sw) < sw
               then 1 else 0))"
proof (cases "pattern = ''hgrid''")
  case True
  then show ?thesis
    using build_grid_hgrid [OF assms(1,2), of sw]
    by (simp add: striping_len_def striping_coord_def)
next
  case False
  then have "pattern = ''vgrid''" using assms(3) by simp
  then show ?thesis
    using build_grid_vgrid [OF assms(1,2), of sw]
    by (simp add: striping_len_def striping_coord_def)
qed

lemma striping_coord_less:
  "r < h \<Longrightarrow> col < w \<Longrightarrow> striping_coord pattern r col < striping_len pattern h w"
  by (simp add: striping_len_def striping_coord_def)

lemma build_grid_phase:
  assumes "shape4 n h w c img" "0 < n" "0 < sw"
    and "pattern = ''hgrid'' \<or> pattern = ''vgrid''"
    and "(n * sw) dvd striping_len pattern h w"
  shows "\<exists>g. build_grid pattern sw img = Inr g \<and> shape4 n h w c g \<and>
           (\<forall>k<n. \<forall>r<h. \<forall>col<w. \<forall>ch<c. g ! k ! r ! col ! ch =
              (if (striping_coord pattern r col mod (n * sw)) div sw = k then 1 else 0))"
proof -
  obtain g where g: "build_grid pattern sw img = Inr g" "shape4 n h w c g"
    and cell: "\<And>k r col ch. k < n \<Longrightarrow> r < h \<Longrightarrow> col < w \<Longrightarrow> ch < c \<Longrightarrow>
      g ! k ! r ! col ! ch =
        (if ((striping_len pattern h w - (k * sw) mod striping_len pattern h w
               + striping_coord pattern r col) mod striping_len pattern h w)
             mod (n * sw) < sw
         then 1 else 0)"
    using build_grid_striped [OF assms(1,2,4), of sw] by blast
  have "g ! k ! r ! col ! ch =
      (if (striping_coord pattern r col mod (n * sw)) div sw = k then 1 else 0)"
    if "k < n" "r < h" "col < w" "ch < c" for k r col ch
  proof -
    have "0 < striping_len pattern h w"
      using striping_coord_less [OF that(2,3), of pattern] by simp
    then show ?thesis
      using cell [OF that] phase_test [OF assms(3) that(1) assms(5)] by simp
  qed
  then show ?thesis using g by blast
qed

lemma phase_index_less:
  fixes x n sw :: nat
  assumes "0 < n" "0 < sw"
  shows "(x mod (n * sw)) div sw < n"
proof -
  have "x mod (n * sw) < n * sw" using assms by simp
  then show ?thesis using assms(2) by (simp add: div_less_iff_less_mult)
qed

text \<open>
  C4, disjointness. As stated, for every pair of distinct phases and without a condition on
  the sizes, it fails: on a width of 4 with three frames and stripe width 1 the base grid is
  visible at columns 0 and 3, phase 1 at columns 0 and 1, so phases 0 and 1 overlap at
  column 0.
\<close>

theorem disjointness_counterexample:
  "build_grid ''hgrid'' 1 (const_stack 1 4 1 [0, 0, 0]) =
     Inr [[[[1], [0], [0], [1]]], [[[1], [1], [0], [0]]], [[[0], [1], [1], [0]]]] \<and>
   (case build_grid ''hgrid'' 1 (const_stack 1 4 1 [0, 0, 0]) of
      Inl e \<Rightarrow> None
    | Inr g \<Rightarrow> Some (g ! 0 ! 0 ! 0 ! 0 AND g ! 1 ! 0 ! 0 ! 0)) = Some 1"
  by code_simp

text \<open>
  C4 as amended: when stripe width times frame count divides the length of the striping
  axis, any two distinct phase grids built by lines 77 to 93 have no visible cell in
  common: their cell-by-cell AND, and their product, is 0 everywhere.
\<close>

theorem disjoint_phases:
  assumes "shape4 n h w c img" "0 < n" "0 < sw"
    and "pattern = ''hgrid'' \<or> pattern = ''vgrid''"
    and "(sw * n) dvd striping_len pattern h w"
  shows "\<exists>g. build_grid pattern sw img = Inr g \<and> shape4 n h w c g \<and>
           (\<forall>k<n. \<forall>j<n. k \<noteq> j \<longrightarrow>
              (\<forall>r<h. \<forall>col<w. \<forall>ch<c.
                 g ! k ! r ! col ! ch AND g ! j ! r ! col ! ch = 0 \<and>
                 g ! k ! r ! col ! ch * g ! j ! r ! col ! ch = 0))"
proof -
  have d: "(n * sw) dvd striping_len pattern h w" using assms(5) by (simp add: mult.commute)
  obtain g where g: "build_grid pattern sw img = Inr g" "shape4 n h w c g"
    and cell: "\<And>k r col ch. k < n \<Longrightarrow> r < h \<Longrightarrow> col < w \<Longrightarrow> ch < c \<Longrightarrow>
      g ! k ! r ! col ! ch =
        (if (striping_coord pattern r col mod (n * sw)) div sw = k then 1 else 0)"
    using build_grid_phase [OF assms(1-4) d] by blast
  have "g ! k ! r ! col ! ch AND g ! j ! r ! col ! ch = 0 \<and>
        g ! k ! r ! col ! ch * g ! j ! r ! col ! ch = 0"
    if "k < n" "j < n" "k \<noteq> j" "r < h" "col < w" "ch < c" for k j r col ch
    using cell [OF that(1,4,5,6)] cell [OF that(2,4,5,6)] that(3) by auto
  then show ?thesis using g by blast
qed

theorem disjoint_phases_witness:
  "\<exists>g. build_grid ''vgrid'' 1 (const_stack 2 1 1 [0, 0]) = Inr g \<and>
     g ! 0 ! 0 ! 0 ! 0 AND g ! 1 ! 0 ! 0 ! 0 = 0 \<and> g ! 0 ! 1 ! 0 ! 0 AND g ! 1 ! 1 ! 0 ! 0 = 0"
proof -
  have sh: "shape4 2 2 1 1 (const_stack 2 1 1 [0, 0])"
    by code_simp
  have d: "(1 * 2) dvd striping_len ''vgrid'' 2 1" by (simp add: striping_len_def)
  obtain g where g: "build_grid ''vgrid'' 1 (const_stack 2 1 1 [0, 0]) = Inr g"
    and s: "\<forall>k<2. \<forall>j<2. k \<noteq> j \<longrightarrow> (\<forall>r<2. \<forall>col<1. \<forall>ch<1.
        g ! k ! r ! col ! ch AND g ! j ! r ! col ! ch = 0 \<and>
        g ! k ! r ! col ! ch * g ! j ! r ! col ! ch = 0)"
    using disjoint_phases [OF sh _ _ _ d] by auto
  have "g ! 0 ! 0 ! 0 ! 0 AND g ! 1 ! 0 ! 0 ! 0 = 0" "g ! 0 ! 1 ! 0 ! 0 AND g ! 1 ! 1 ! 0 ! 0 = 0"
    using s by simp_all
  then show ?thesis using g by blast
qed

section \<open>The class Moire: the frame-count test and the setter\<close>

lemma length_rows_assign [simp]: "length (rows_assign step g) = length g"
  by (simp add: rows_assign_def split: list.splits)

lemma make_grid_side:
  assumes "make_grid m = Inr self"
  shows "int (length (self_grid self)) =
           self_stripe_width m * self_num_frames m * self_replications m"
    and "self_stripe_width self = self_stripe_width m"
    and "self_num_frames self = self_num_frames m"
    and "self_replications self = self_replications m"
    and "self_pattern self = self_pattern m"
  using assms by (auto simp: make_grid_def Let_def split: if_splits)

text \<open>
  C5. Calling a Moire object with a frame stack whose length is not the configured frame
  count raises the frame-count error (ValueError), and a stack of the right length raises
  nothing. The code does not do this: the test reads the global \<^verbatim>\<open>num_frames\<close>, not
  \<^verbatim>\<open>self._num_frames\<close>. In the imported module the name is unbound and every call
  raises NameError, whatever the object and the stack; run as a script, the stack is
  compared with the script's global 5, whatever the object was configured with.
\<close>

theorem Moire_call_reads_global:
  "Moire_call globals_imported self arr = Inl NameError \<and>
   Moire_call globals_script self arr = (if length arr = 5 then Inr () else Inl ValueError)"
  by (simp add: Moire_call_def globals_imported_def globals_script_def)

text \<open>
  C10. Assigning to \<^verbatim>\<open>replications\<close> stores the value and leaves every other
  attribute, the grid among them, as it was. For an object whose grid was built by
  \<^verbatim>\<open>make_grid\<close> the side of the grid therefore stays the product of stripe width,
  frame count and the replications of that call, and differs from the product taken with
  the assigned value whenever the assigned value is a new one and stripe width and frame
  count are not zero.
\<close>

theorem replications_setter_keeps_grid:
  assumes "make_grid m = Inr self"
  shows "self_grid (replications_setter self val) = self_grid self \<and>
         replications (replications_setter self val) = val \<and>
         self_pattern (replications_setter self val) = self_pattern self \<and>
         self_stripe_width (replications_setter self val) = self_stripe_width self \<and>
         self_num_frames (replications_setter self val) = self_num_frames self \<and>
         int (length (self_grid (replications_setter self val))) =
           self_stripe_width self * self_num_frames self * self_replications self \<and>
         (if val \<noteq> self_replications self \<and> self_stripe_width self * self_num_frames self \<noteq> 0
          then int (length (self_grid (replications_setter self val))) \<noteq>
                 self_stripe_width (replications_setter self val) *
                 self_num_frames (replications_setter self val) *
                 replications (replications_setter self val)
          else True)"
  using make_grid_side [OF assms]
  by (simp add: replications_setter_def replications_def)

theorem replications_setter_keeps_grid_witness:
  "\<exists>self. Moire_init ''hgrid'' 1 6 = Inr self \<and>
     length (self_grid (replications_setter self 10)) = 144 \<and>
     replications (replications_setter self 10) = 10 \<and>
     self_stripe_width (replications_setter self 10) *
       self_num_frames (replications_setter self 10) *
       replications (replications_setter self 10) = 60"
proof -
  obtain self where s: "Moire_init ''hgrid'' 1 6 = Inr self"
    by (simp add: Moire_init_def make_grid_def)
  have m: "make_grid \<lparr>self_pattern = ''hgrid'', self_stripe_width = 1, self_num_frames = 6,
      self_replications = 24, self_grid = []\<rparr> = Inr self"
    using s by (simp add: Moire_init_def)
  have f: "self_stripe_width self = 1" "self_num_frames self = 6" "self_replications self = 24"
    using make_grid_side [OF m] by simp_all
  have "int (length (self_grid (replications_setter self 10))) =
      self_stripe_width self * self_num_frames self * self_replications self"
    using replications_setter_keeps_grid [OF m, of 10] by blast
  then have len: "length (self_grid (replications_setter self 10)) = 144"
    using f by simp
  have "replications (replications_setter self 10) = 10"
    and "self_stripe_width (replications_setter self 10) = 1"
    and "self_num_frames (replications_setter self 10) = 6"
    using f by (simp_all add: replications_setter_def replications_def)
  then show ?thesis
    using s len by simp
qed

section \<open>Orientation, the stripe rule and the size of the grid\<close>

lemma transpose_hw_shape: "shape3 h w c f \<Longrightarrow> shape3 w h c (transpose_hw h w f)"
  by (auto simp: shape3_iff transpose_hw_def)

lemma transpose_hw_cell:
  "r < h \<Longrightarrow> col < w \<Longrightarrow> transpose_hw h w f ! col ! r = f ! r ! col"
  by (simp add: transpose_hw_def)

text \<open>
  C9, orientation symmetry. For every height h, width w, stripe width and frame count of
  at least one, the grids that the \<^verbatim>\<open>hgrid\<close> branch builds on a footprint (h, w), each
  transposed, are the grids that the \<^verbatim>\<open>vgrid\<close> branch builds on the footprint (w, h).
\<close>

theorem orientation_symmetry:
  assumes "shape4 n h w c img" "shape4 n w h c img'" "0 < n"
  shows "\<exists>g g'. build_grid ''hgrid'' sw img = Inr g \<and> build_grid ''vgrid'' sw img' = Inr g' \<and>
           shape4 n h w c g \<and> shape4 n w h c g' \<and> map (transpose_hw h w) g = g'"
proof -
  obtain g where g: "build_grid ''hgrid'' sw img = Inr g" "shape4 n h w c g"
    and gc: "\<And>k r col ch. k < n \<Longrightarrow> r < h \<Longrightarrow> col < w \<Longrightarrow> ch < c \<Longrightarrow>
      g ! k ! r ! col ! ch =
        (if ((w - (k * sw) mod w + col) mod w) mod (n * sw) < sw then 1 else 0)"
    using build_grid_hgrid [OF assms(1,3), of sw] by blast
  obtain g' where g': "build_grid ''vgrid'' sw img' = Inr g'" "shape4 n w h c g'"
    and gc': "\<And>k r col ch. k < n \<Longrightarrow> r < w \<Longrightarrow> col < h \<Longrightarrow> ch < c \<Longrightarrow>
      g' ! k ! r ! col ! ch =
        (if ((w - (k * sw) mod w + r) mod w) mod (n * sw) < sw then 1 else 0)"
    using build_grid_vgrid [OF assms(2,3), of sw] by blast
  have ts: "shape4 n w h c (map (transpose_hw h w) g)"
    using g(2) by (auto simp: shape4_iff transpose_hw_shape)
  have "map (transpose_hw h w) g = g'"
  proof (rule shape4_ext [OF ts g'(2)])
    fix k r col ch
    assume b: "k < n" "r < w" "col < h" "ch < c"
    have "map (transpose_hw h w) g ! k ! r ! col ! ch = g ! k ! col ! r ! ch"
      using g(2) b by (simp add: shape4_iff transpose_hw_cell)
    then show "map (transpose_hw h w) g ! k ! r ! col ! ch = g' ! k ! r ! col ! ch"
      using gc [OF b(1,3,2,4)] gc' [OF b] by simp
  qed
  then show ?thesis using g g' by blast
qed

theorem orientation_symmetry_witness:
  "\<exists>g g'. build_grid ''hgrid'' 1 (const_stack 1 2 1 [7, 9]) = Inr g \<and>
     build_grid ''vgrid'' 1 (const_stack 2 1 1 [0, 0]) = Inr g' \<and>
     map (transpose_hw 1 2) g = g' \<and> g' = [[[[1]], [[0]]], [[[0]], [[1]]]]"
proof -
  have sh: "shape4 2 1 2 1 (const_stack 1 2 1 [7, 9])" by code_simp
  have sh': "shape4 2 2 1 1 (const_stack 2 1 1 [0, 0])" by code_simp
  obtain g g' where g: "build_grid ''hgrid'' 1 (const_stack 1 2 1 [7, 9]) = Inr g"
    and g': "build_grid ''vgrid'' 1 (const_stack 2 1 1 [0, 0]) = Inr g'"
    and t: "map (transpose_hw 1 2) g = g'"
    using orientation_symmetry [OF sh sh', of 1] by auto
  have "build_grid ''vgrid'' 1 (const_stack 2 1 1 [0, 0]) = Inr [[[[1]], [[0]]], [[[0]], [[1]]]]"
    by code_simp
  then have e: "g' = [[[[1]], [[0]]], [[[0]], [[1]]]]" using g' by simp
  show ?thesis
    by (rule exI [of _ g], rule exI [of _ g']) (simp only: g g' t e simp_thms)
qed

lemma rows_assign_cell:
  assumes "0 < step" "r < length g"
  shows "rows_assign step g ! r = (if r mod nat step = 0 then map (\<lambda>_. 1) (g ! r) else g ! r)"
  using assms by (simp add: rows_assign_def nth_slice_assign)

lemma make_grid_cell:
  assumes "make_grid m = Inr self" "0 < self_num_frames m"
  shows "length (self_grid self) =
           nat (self_stripe_width m * self_num_frames m * self_replications m)"
    and "r < length (self_grid self) \<Longrightarrow> length (self_grid self ! r) = length (self_grid self)"
    and "r < length (self_grid self) \<Longrightarrow> col < length (self_grid self) \<Longrightarrow>
           self_grid self ! r ! col = (if r mod nat (self_num_frames m) = 0 then 1 else 0)"
proof -
  let ?size = "nat (self_stripe_width m * self_num_frames m * self_replications m)"
  have sg: "self_grid self = rows_assign (self_num_frames m) (replicate ?size (replicate ?size 0))"
    using assms by (auto simp: make_grid_def Let_def split: if_splits)
  show len: "length (self_grid self) = ?size" by (simp add: sg)
  show "length (self_grid self ! r) = length (self_grid self)" if "r < length (self_grid self)"
    using that len by (simp add: sg rows_assign_cell [OF assms(2)])
  show "self_grid self ! r ! col = (if r mod nat (self_num_frames m) = 0 then 1 else 0)"
    if "r < length (self_grid self)" "col < length (self_grid self)"
    using that len by (simp add: sg rows_assign_cell [OF assms(2)])
qed

lemma build_grid_shape:
  assumes "shape4 n h w c img" "0 < n"
  shows "\<exists>g. build_grid pattern sw img = Inr g \<and> shape4 n h w c g"
proof (cases "pattern = ''hgrid'' \<or> pattern = ''vgrid''")
  case True
  then show ?thesis using build_grid_striped [OF assms True, of sw] by blast
next
  case False
  then show ?thesis
    using build_grid_other [OF assms(1), of pattern sw] zeros_like_shape [OF assms(1)] by simp
qed

lemma build_grid_shifted:
  assumes "shape4 n h w c img" "0 < n" "pattern = ''hgrid'' \<or> pattern = ''vgrid''"
  shows "\<exists>g. build_grid pattern sw img = Inr g \<and> shape4 n h w c g \<and>
           (\<forall>k<n. \<forall>r<h. \<forall>col<w. \<forall>ch<c.
              (if pattern = ''hgrid'' then g ! k ! r ! ((col + k * sw) mod w) ! ch
               else g ! k ! ((r + k * sw) mod h) ! col ! ch) =
              (if striping_coord pattern r col mod (n * sw) < sw then 1 else 0))"
proof (cases "pattern = ''hgrid''")
  case True
  obtain g where g: "build_grid ''hgrid'' sw img = Inr g" "shape4 n h w c g"
    and gc: "\<And>k r col ch. k < n \<Longrightarrow> r < h \<Longrightarrow> col < w \<Longrightarrow> ch < c \<Longrightarrow>
      g ! k ! r ! col ! ch =
        (if ((w - (k * sw) mod w + col) mod w) mod (n * sw) < sw then 1 else 0)"
    using build_grid_hgrid [OF assms(1,2), of sw] by blast
  have "g ! k ! r ! ((col + k * sw) mod w) ! ch = (if col mod (n * sw) < sw then 1 else 0)"
    if "k < n" "r < h" "col < w" "ch < c" for k r col ch
  proof -
    have "(col + k * sw) mod w < w" using that(3) by simp
    then show ?thesis
      using gc [OF that(1,2) _ that(4), of "(col + k * sw) mod w"]
      by (simp only: shift_back [OF that(3)])
  qed
  then show ?thesis using g True by (simp add: striping_coord_def)
next
  case False
  then have v: "pattern = ''vgrid''" using assms(3) by simp
  obtain g where g: "build_grid ''vgrid'' sw img = Inr g" "shape4 n h w c g"
    and gc: "\<And>k r col ch. k < n \<Longrightarrow> r < h \<Longrightarrow> col < w \<Longrightarrow> ch < c \<Longrightarrow>
      g ! k ! r ! col ! ch =
        (if ((h - (k * sw) mod h + r) mod h) mod (n * sw) < sw then 1 else 0)"
    using build_grid_vgrid [OF assms(1,2), of sw] by blast
  have "g ! k ! ((r + k * sw) mod h) ! col ! ch = (if r mod (n * sw) < sw then 1 else 0)"
    if "k < n" "r < h" "col < w" "ch < c" for k r col ch
  proof -
    have "(r + k * sw) mod h < h" using that(2) by simp
    then show ?thesis
      using gc [OF that(1) _ that(3,4), of "(r + k * sw) mod h"]
      by (simp only: shift_back [OF that(2)])
  qed
  then show ?thesis using g v by (simp add: striping_coord_def)
qed

lemma mod_less_one_int:
  fixes nf :: int
  assumes "0 < nf"
  shows "int r mod (1 * nf) < 1 \<longleftrightarrow> r mod nat nf = 0"
proof -
  have "int (r mod nat nf) = int r mod nf" using assms by (simp add: zmod_int)
  moreover have "0 \<le> int r mod nf" using assms by simp
  ultimately show ?thesis by auto
qed

lemma Moire_init_make_grid:
  "Moire_init p sw nf = make_grid \<lparr>self_pattern = p, self_stripe_width = sw,
     self_num_frames = nf, self_replications = 24, self_grid = []\<rparr>"
  by (simp add: Moire_init_def)

lemma Moire_init_ok:
  assumes "0 \<le> sw * nf" "nf \<noteq> 0"
  shows "\<exists>self. Moire_init p sw nf = Inr self"
proof -
  have "0 \<le> sw * nf * 24" using assms(1) by (rule mult_nonneg_nonneg) simp
  then have "\<not> sw * nf * 24 < 0" by (simp only: not_less)
  then show ?thesis using assms(2) by (simp add: Moire_init_def make_grid_def Let_def)
qed

text \<open>
  C2, the stripe rule. As stated for every stripe width it fails on \<^verbatim>\<open>Moire.make_grid\<close>,
  which marks every \<^verbatim>\<open>num_frames\<close>-th row whatever the stripe width is: with stripe
  width 2 and 3 frames the period is 6, row 1 should be visible and row 3 hidden, and the
  grid has row 1 at 0 and row 3 at 1.
\<close>

theorem stripe_rule_counterexample:
  "(case Moire_init ''hgrid'' 2 3 of
      Inl e \<Rightarrow> None
    | Inr self \<Rightarrow> Some (length (self_grid self), self_grid self ! 1 ! 0, self_grid self ! 3 ! 0))
     = Some (144, 0, 1) \<and>
   (1::int) mod (2 * 3) < 2 \<and> \<not> (3::int) mod (2 * 3) < 2"
proof -
  let ?m = "\<lparr>self_pattern = ''hgrid'', self_stripe_width = 2, self_num_frames = 3,
    self_replications = 24, self_grid = []\<rparr>"
  obtain self where s: "Moire_init ''hgrid'' 2 3 = Inr self"
    using Moire_init_ok [of 2 3 "''hgrid''"] by auto
  then have mk: "make_grid ?m = Inr self" by (simp add: Moire_init_make_grid)
  have nf: "0 < self_num_frames ?m" by simp
  have len: "length (self_grid self) = 144" using make_grid_cell(1) [OF mk nf] by simp
  have "self_grid self ! 1 ! 0 = 0" "self_grid self ! 3 ! 0 = 1"
    using make_grid_cell(3) [OF mk nf, of 1 0] make_grid_cell(3) [OF mk nf, of 3 0] len
    by simp_all
  then show ?thesis using s len by simp
qed

text \<open>
  C2 as amended. In the pipeline of \<^verbatim>\<open>scanimate.py\<close> (lines 77 to 93), for every stripe
  width and frame count of at least 1: a cell of the phase-0 grid is 1 if and only if its
  coordinate along the striping axis, modulo stripe width times frame count, is below the
  stripe width, and 0 otherwise; and the cell of phase \<open>k\<close> that lies
  \<open>k * stripewidth\<close> positions further along the axis, wrapping around, equals the
  phase-0 cell. In \<^verbatim>\<open>Moire.make_grid\<close> the rule holds on the rows when the stripe width
  is 1 and the frame count is positive.
\<close>

theorem stripe_rule:
  assumes "shape4 n h w c img" "0 < n" "0 < sw" "pattern = ''hgrid'' \<or> pattern = ''vgrid''"
    and "make_grid m = Inr self" "0 < self_num_frames m" "self_stripe_width m = 1"
  shows "(\<exists>g. build_grid pattern sw img = Inr g \<and> shape4 n h w c g \<and>
            (\<forall>r<h. \<forall>col<w. \<forall>ch<c.
               g ! 0 ! r ! col ! ch =
                 (if striping_coord pattern r col mod (sw * n) < sw then 1 else 0) \<and>
               (\<forall>k<n. (if pattern = ''hgrid'' then g ! k ! r ! ((col + k * sw) mod w) ! ch
                        else g ! k ! ((r + k * sw) mod h) ! col ! ch) =
                       g ! 0 ! r ! col ! ch))) \<and>
         (\<forall>r<length (self_grid self). \<forall>col<length (self_grid self).
            self_grid self ! r ! col =
              (if int r mod (self_stripe_width m * self_num_frames m) < self_stripe_width m
               then 1 else 0))"
proof -
  obtain g where g: "build_grid pattern sw img = Inr g" "shape4 n h w c g"
    and gc: "\<And>k r col ch. k < n \<Longrightarrow> r < h \<Longrightarrow> col < w \<Longrightarrow> ch < c \<Longrightarrow>
      (if pattern = ''hgrid'' then g ! k ! r ! ((col + k * sw) mod w) ! ch
       else g ! k ! ((r + k * sw) mod h) ! col ! ch) =
      (if striping_coord pattern r col mod (n * sw) < sw then 1 else 0)"
    using build_grid_shifted [OF assms(1,2,4), of sw] by blast
  have base: "g ! 0 ! r ! col ! ch =
      (if striping_coord pattern r col mod (sw * n) < sw then 1 else 0)"
    if "r < h" "col < w" "ch < c" for r col ch
    using gc [OF assms(2) that] that by (simp add: mult.commute split: if_splits)
  have phase: "(if pattern = ''hgrid'' then g ! k ! r ! ((col + k * sw) mod w) ! ch
       else g ! k ! ((r + k * sw) mod h) ! col ! ch) = g ! 0 ! r ! col ! ch"
    if "k < n" "r < h" "col < w" "ch < c" for k r col ch
    using gc [OF that] base [OF that(2,3,4)] by (simp add: mult.commute)
  have moire: "self_grid self ! r ! col =
      (if int r mod (self_stripe_width m * self_num_frames m) < self_stripe_width m
       then 1 else 0)"
    if "r < length (self_grid self)" "col < length (self_grid self)" for r col
    using make_grid_cell(3) [OF assms(5,6) that] mod_less_one_int [OF assms(6), of r]
    by (simp add: assms(7))
  show ?thesis using g base phase moire by blast
qed

theorem stripe_rule_witness:
  "\<exists>g self. build_grid ''hgrid'' 2 (const_stack 1 4 1 [0, 0]) = Inr g \<and>
     g = [[[[1], [1], [0], [0]]], [[[0], [0], [1], [1]]]] \<and>
     Moire_init ''vgrid'' 1 6 = Inr self \<and>
     self_grid self ! 0 ! 5 = 1 \<and> self_grid self ! 1 ! 5 = 0 \<and> self_grid self ! 6 ! 5 = 1"
proof -
  let ?m = "\<lparr>self_pattern = ''vgrid'', self_stripe_width = 1, self_num_frames = 6,
    self_replications = 24, self_grid = []\<rparr>"
  obtain self where s: "Moire_init ''vgrid'' 1 6 = Inr self"
    using Moire_init_ok [of 1 6 "''vgrid''"] by auto
  then have mk: "make_grid ?m = Inr self" by (simp add: Moire_init_make_grid)
  have nf: "0 < self_num_frames ?m" and sw: "self_stripe_width ?m = 1" by simp_all
  have len: "length (self_grid self) = 144" using make_grid_side(1) [OF mk] by simp
  have sh: "shape4 2 1 4 1 (const_stack 1 4 1 [0, 0])" by code_simp
  have rule: "\<forall>r<length (self_grid self). \<forall>col<length (self_grid self).
      self_grid self ! r ! col =
        (if int r mod (self_stripe_width ?m * self_num_frames ?m) < self_stripe_width ?m
         then 1 else 0)"
    using stripe_rule [OF sh _ _ _ mk nf sw, of 2 "''hgrid''"] by simp
  have cells: "self_grid self ! 0 ! 5 = 1" "self_grid self ! 1 ! 5 = 0" "self_grid self ! 6 ! 5 = 1"
    using rule len by simp_all
  have g: "build_grid ''hgrid'' 2 (const_stack 1 4 1 [0, 0]) =
      Inr [[[[1], [1], [0], [0]]], [[[0], [0], [1], [1]]]]"
    by code_simp
  show ?thesis
    by (rule exI [of _ "[[[[1], [1], [0], [0]]], [[[0], [0], [1], [1]]]]"], rule exI [of _ self])
      (simp only: g s cells simp_thms)
qed

lemma rows_assign_rows:
  assumes "list_all (\<lambda>row. length row = k) g"
  shows "list_all (\<lambda>row. length row = k) (rows_assign step g)"
proof (cases "0 < step")
  case True
  then show ?thesis
    using assms by (auto simp: rows_assign_def list_all_length nth_slice_assign)
next
  case False
  then show ?thesis using assms by (cases g) (simp_all add: rows_assign_def)
qed

lemma make_grid_square:
  assumes "make_grid m = Inr self"
  shows "list_all (\<lambda>row. length row =
           nat (self_stripe_width m * self_num_frames m * self_replications m)) (self_grid self)"
proof -
  let ?size = "nat (self_stripe_width m * self_num_frames m * self_replications m)"
  have sg: "self_grid self = rows_assign (self_num_frames m) (replicate ?size (replicate ?size 0))"
    using assms by (auto simp: make_grid_def Let_def split: if_splits)
  have "list_all (\<lambda>row. length row = ?size) (replicate ?size (replicate ?size (0::int)))"
    by (simp add: list_all_length)
  then show ?thesis unfolding sg by (rule rows_assign_rows)
qed

lemma main_grid_cell:
  assumes "shape4 n h w c img" "0 < n" "0 < c"
  shows "\<exists>g0 g. build_grid pattern sw img = Inr g0 \<and> shape4 n h w c g0 \<and>
           main_grid pattern sw img = Inr g \<and> shape4 n h w c g \<and>
           (\<forall>k<n. \<forall>r<h. \<forall>col<w. \<forall>ch<c.
              g ! k ! r ! col ! ch = (if ch = c - 1 then 1 else g0 ! k ! r ! col ! ch))"
proof -
  obtain g0 where g0: "build_grid pattern sw img = Inr g0" "shape4 n h w c g0"
    using build_grid_shape [OF assms(1,2)] by blast
  let ?g = "map (map (map (set_last 1))) g0"
  have "main_grid pattern sw img = Inr ?g"
    by (simp add: main_grid_def g0(1) last_assign4_ok [OF g0(2) assms(3)])
  moreover have "shape4 n h w c ?g" using g0(2) by (rule set_last4_shape)
  moreover have "?g ! k ! r ! col ! ch = (if ch = c - 1 then 1 else g0 ! k ! r ! col ! ch)"
    if "k < n" "r < h" "col < w" "ch < c" for k r col ch
    using g0(2) that by (rule set_last4_cell)
  ultimately show ?thesis using g0 by blast
qed

text \<open>
  C8, the size of the grid. As stated for every grid construction it fails on the class:
  \<^verbatim>\<open>Moire.make_grid\<close> never sees a frame stack and builds a square of side
  stripe width times frame count times replications, 72 by 72 for three frames, whatever
  the frames measure (12 by 12 here).
\<close>

theorem grid_sizing_counterexample:
  "(case Moire_init ''hgrid'' 1 3 of
      Inl e \<Rightarrow> None
    | Inr self \<Rightarrow> Some (length (self_grid self), length (self_grid self ! 0))) = Some (72, 72) \<and>
   shape4 3 12 12 4 (const_stack 12 12 4 [10, 20, 30])"
proof -
  let ?m = "\<lparr>self_pattern = ''hgrid'', self_stripe_width = 1, self_num_frames = 3,
    self_replications = 24, self_grid = []\<rparr>"
  obtain self where s: "Moire_init ''hgrid'' 1 3 = Inr self"
    using Moire_init_ok [of 1 3 "''hgrid''"] by auto
  then have mk: "make_grid ?m = Inr self" by (simp add: Moire_init_make_grid)
  have nf: "0 < self_num_frames ?m" by simp
  have len: "length (self_grid self) = 72" using make_grid_cell(1) [OF mk nf] by simp
  have "length (self_grid self ! 0) = 72" using make_grid_cell(2) [OF mk nf, of 0] len by simp
  moreover have "shape4 3 12 12 4 (const_stack 12 12 4 [10, 20, 30])"
    using const_stack_shape [of "[10, 20, 30]" 12 12 4] by (simp add: numeral_3_eq_3)
  ultimately show ?thesis using s len by simp
qed

text \<open>
  C8 as amended. In the pipeline of \<^verbatim>\<open>scanimate.py\<close> the grid is allocated with
  \<^verbatim>\<open>np.zeros_like(img)\<close>: for every frame stack (at least one frame, at least one
  channel), every pattern and stripe width, the grid stack has the shape of the frame
  stack, before and after line 95. The grid of a Moire object is a square whose side is
  the product of its stripe width, frame count and replications.
\<close>

theorem grid_sizing:
  assumes "shape4 n h w c img" "0 < n" "0 < c" "make_grid m = Inr self"
  shows "(\<exists>g0 g. build_grid pattern sw img = Inr g0 \<and> shape4 n h w c g0 \<and>
            main_grid pattern sw img = Inr g \<and> shape4 n h w c g) \<and>
         int (length (self_grid self)) =
           self_stripe_width m * self_num_frames m * self_replications m \<and>
         list_all (\<lambda>row. length row = length (self_grid self)) (self_grid self)"
proof -
  have "int (length (self_grid self)) =
      self_stripe_width m * self_num_frames m * self_replications m"
    using assms(4) by (rule make_grid_side(1))
  moreover from this have "length (self_grid self) =
      nat (self_stripe_width m * self_num_frames m * self_replications m)" by simp
  then have "list_all (\<lambda>row. length row = length (self_grid self)) (self_grid self)"
    using make_grid_square [OF assms(4)] by simp
  ultimately show ?thesis using main_grid_cell [OF assms(1-3), of pattern sw] by blast
qed

theorem grid_sizing_witness:
  "\<exists>g self. main_grid ''hgrid'' 1 (const_stack 1 2 2 [5, 6]) = Inr g \<and> shape4 2 1 2 2 g \<and>
     Moire_init ''hgrid'' 1 3 = Inr self \<and> int (length (self_grid self)) = 1 * 3 * 24"
proof -
  let ?m = "\<lparr>self_pattern = ''hgrid'', self_stripe_width = 1, self_num_frames = 3,
    self_replications = 24, self_grid = []\<rparr>"
  obtain self where s: "Moire_init ''hgrid'' 1 3 = Inr self"
    using Moire_init_ok [of 1 3 "''hgrid''"] by auto
  then have mk: "make_grid ?m = Inr self" by (simp add: Moire_init_make_grid)
  have sh: "shape4 2 1 2 2 (const_stack 1 2 2 [5, 6])" by code_simp
  obtain g where g: "main_grid ''hgrid'' 1 (const_stack 1 2 2 [5, 6]) = Inr g" "shape4 2 1 2 2 g"
    and l: "int (length (self_grid self)) =
      self_stripe_width ?m * self_num_frames ?m * self_replications ?m"
    using grid_sizing [OF sh _ _ mk, of "''hgrid''" 1] by auto
  have "int (length (self_grid self)) = 1 * 3 * 24" using l by simp
  then show ?thesis using g s by blast
qed

section \<open>The partition of the footprint\<close>

text \<open>
  The grids of lines 77 to 93 as the roll builds them: frame 0 is the striped base, and
  frame \<open>k\<close> is frame 0 rolled by \<open>k * stripewidth\<close> along the striping axis
  (axis 1 of a frame for \<^verbatim>\<open>hgrid\<close>, axis 0 for \<^verbatim>\<open>vgrid\<close>).
\<close>

lemma build_grid_hgrid_rolled:
  assumes "shape4 n h w c img" "0 < n"
  shows "\<exists>g. build_grid ''hgrid'' sw img = Inr g \<and>
           (\<forall>r<h. \<forall>col<w. \<forall>ch<c.
              g ! 0 ! r ! col ! ch = (if col mod (n * sw) < sw then 1 else 0)) \<and>
           (\<forall>k<n. g ! k = roll_axis1 (k * sw) (g ! 0))"
proof -
  let ?b = "fold (\<lambda>i g. hgrid_assign i (n * sw) g) [0..<sw] (zeros_like img)"
  let ?g = "roll_frames roll_axis1 sw ?b"
  have len: "length img = n" using assms(1) by (simp add: shape4_iff)
  have bs: "shape4 n h w c ?b"
    by (rule hgrid_loop_shape [OF zeros_like_shape [OF assms(1)]])
  have eq: "build_grid ''hgrid'' sw img = Inr ?g"
    using assms(2) len by (auto simp: build_grid_def Let_def)
  have lb: "length ?b = n" and b3: "\<And>k. k < n \<Longrightarrow> shape3 h w c (?b ! k)"
    using bs by (simp_all add: shape4_iff)
  have same: "?b ! k = ?b ! 0" if "k < n" for k
  proof (rule shape3_ext [OF b3 [OF that] b3 [OF assms(2)]])
    fix r col ch assume a: "r < h" "col < w" "ch < c"
    show "?b ! k ! r ! col ! ch = ?b ! 0 ! r ! col ! ch"
      using hgrid_base_cell [OF assms that a, where sw = sw]
        hgrid_base_cell [OF assms assms(2) a, where sw = sw]
      by simp
  qed
  have nth: "?g ! k = roll_axis1 (k * sw) (?b ! k)" if "k < n" for k
    by (rule nth_roll_frames [where rollf = roll_axis1, OF roll_axis1_zero])
      (simp only: lb that)
  have g0: "?g ! 0 = ?b ! 0" using nth [OF assms(2)] by (simp add: roll_axis1_zero)
  have base: "?g ! 0 ! r ! col ! ch = (if col mod (n * sw) < sw then 1 else 0)"
    if "r < h" "col < w" "ch < c" for r col ch
    unfolding g0 by (rule hgrid_base_cell [OF assms assms(2) that])
  have rolled: "?g ! k = roll_axis1 (k * sw) (?g ! 0)" if "k < n" for k
    unfolding g0 using nth [OF that] same [OF that] by simp
  show ?thesis using eq base rolled by blast
qed

lemma build_grid_vgrid_rolled:
  assumes "shape4 n h w c img" "0 < n"
  shows "\<exists>g. build_grid ''vgrid'' sw img = Inr g \<and>
           (\<forall>r<h. \<forall>col<w. \<forall>ch<c.
              g ! 0 ! r ! col ! ch = (if r mod (n * sw) < sw then 1 else 0)) \<and>
           (\<forall>k<n. g ! k = roll_axis0 (k * sw) (g ! 0))"
proof -
  let ?b = "fold (\<lambda>i g. vgrid_assign i (n * sw) g) [0..<sw] (zeros_like img)"
  let ?g = "roll_frames roll_axis0 sw ?b"
  have len: "length img = n" using assms(1) by (simp add: shape4_iff)
  have bs: "shape4 n h w c ?b"
    by (rule vgrid_loop_shape [OF zeros_like_shape [OF assms(1)]])
  have eq: "build_grid ''vgrid'' sw img = Inr ?g"
    using assms(2) len by (auto simp: build_grid_def Let_def)
  have lb: "length ?b = n" and b3: "\<And>k. k < n \<Longrightarrow> shape3 h w c (?b ! k)"
    using bs by (simp_all add: shape4_iff)
  have same: "?b ! k = ?b ! 0" if "k < n" for k
  proof (rule shape3_ext [OF b3 [OF that] b3 [OF assms(2)]])
    fix r col ch assume a: "r < h" "col < w" "ch < c"
    show "?b ! k ! r ! col ! ch = ?b ! 0 ! r ! col ! ch"
      using vgrid_base_cell [OF assms that a, where sw = sw]
        vgrid_base_cell [OF assms assms(2) a, where sw = sw]
      by simp
  qed
  have nth: "?g ! k = roll_axis0 (k * sw) (?b ! k)" if "k < n" for k
    by (rule nth_roll_frames [where rollf = roll_axis0, OF roll_axis0_zero])
      (simp only: lb that)
  have g0: "?g ! 0 = ?b ! 0" using nth [OF assms(2)] by (simp add: roll_axis0_zero)
  have base: "?g ! 0 ! r ! col ! ch = (if r mod (n * sw) < sw then 1 else 0)"
    if "r < h" "col < w" "ch < c" for r col ch
    unfolding g0 by (rule vgrid_base_cell [OF assms assms(2) that])
  have rolled: "?g ! k = roll_axis0 (k * sw) (?g ! 0)" if "k < n" for k
    unfolding g0 using nth [OF that] same [OF that] by simp
  show ?thesis using eq base rolled by blast
qed

lemma build_grid_rolled:
  assumes "shape4 n h w c img" "0 < n" "pattern = ''hgrid'' \<or> pattern = ''vgrid''"
  shows "\<exists>g. build_grid pattern sw img = Inr g \<and>
           (\<forall>r<h. \<forall>col<w. \<forall>ch<c. g ! 0 ! r ! col ! ch =
              (if striping_coord pattern r col mod (n * sw) < sw then 1 else 0)) \<and>
           (\<forall>k<n. g ! k = (if pattern = ''hgrid'' then roll_axis1 (k * sw) (g ! 0)
                            else roll_axis0 (k * sw) (g ! 0)))"
proof (cases "pattern = ''hgrid''")
  case True
  then show ?thesis
    using build_grid_hgrid_rolled [OF assms(1,2), of sw] by (simp add: striping_coord_def)
next
  case False
  then have "pattern = ''vgrid''" using assms(3) by simp
  then show ?thesis
    using build_grid_vgrid_rolled [OF assms(1,2), of sw] by (simp add: striping_coord_def)
qed

text \<open>
  C1, the partition property. On the grids that \<^verbatim>\<open>main\<close> keeps (lines 77 to 95) it
  fails on the last channel: line 95 sets that channel to 1 in every grid, so with two
  frames of two channels the last channel adds up to 2 in every cell, and with one channel
  every cell of every grid is 1 and every cell adds up to the frame count.
\<close>

theorem partition_counterexample:
  "main_grid ''hgrid'' 1 (const_stack 1 2 2 [5, 6]) =
     Inr [[[[1, 1], [0, 1]]], [[[0, 1], [1, 1]]]] \<and>
   (case main_grid ''hgrid'' 1 (const_stack 1 2 2 [5, 6]) of
      Inl e \<Rightarrow> None
    | Inr g \<Rightarrow> Some (unat (g ! 0 ! 0 ! 0 ! 1) + unat (g ! 1 ! 0 ! 0 ! 1))) = Some 2 \<and>
   main_grid ''hgrid'' 1 (const_stack 1 2 1 [0, 0]) = Inr [[[[1], [1]]], [[[1], [1]]]]"
  by code_simp

text \<open>
  C1 as amended. For every frame stack of shape (n, h, w, c) with at least one frame and
  one channel, every stripe width of at least 1 and either pattern, if stripe width times
  frame count divides the length of the striping axis: the grids of lines 77 to 93 are the
  base grid (a cell is 1 if and only if its coordinate along the striping axis, modulo
  stripe width times frame count, is below the stripe width) and, for phase \<open>k\<close>, the
  base grid rolled by \<open>k * stripewidth\<close> along that axis, and they add up to 1 in every
  cell. The grids after line 95 agree with them on every channel but the last, where they
  add up to 1 in every cell; on the last channel every grid is 1 and they add up to the
  frame count.
\<close>

theorem partition_property:
  assumes "shape4 n h w c img" "0 < n" "0 < sw" "0 < c"
    and "pattern = ''hgrid'' \<or> pattern = ''vgrid''"
    and "(sw * n) dvd striping_len pattern h w"
  shows "\<exists>g0 g. build_grid pattern sw img = Inr g0 \<and> shape4 n h w c g0 \<and>
           main_grid pattern sw img = Inr g \<and> shape4 n h w c g \<and>
           (\<forall>k<n. g0 ! k = (if pattern = ''hgrid'' then roll_axis1 (k * sw) (g0 ! 0)
                             else roll_axis0 (k * sw) (g0 ! 0))) \<and>
           (\<forall>r<h. \<forall>col<w. \<forall>ch<c.
              g0 ! 0 ! r ! col ! ch =
                (if striping_coord pattern r col mod (sw * n) < sw then 1 else 0) \<and>
              (\<Sum>k<n. unat (g0 ! k ! r ! col ! ch)) = 1 \<and>
              (\<forall>k<n. g ! k ! r ! col ! ch =
                 (if ch = c - 1 then 1 else g0 ! k ! r ! col ! ch)) \<and>
              (\<Sum>k<n. unat (g ! k ! r ! col ! ch)) = (if ch = c - 1 then n else 1))"
proof -
  have d: "(n * sw) dvd striping_len pattern h w" using assms(6) by (simp add: mult.commute)
  obtain g0 g where g: "build_grid pattern sw img = Inr g0" "shape4 n h w c g0"
      "main_grid pattern sw img = Inr g" "shape4 n h w c g"
    and gc: "\<And>k r col ch. k < n \<Longrightarrow> r < h \<Longrightarrow> col < w \<Longrightarrow> ch < c \<Longrightarrow>
      g ! k ! r ! col ! ch = (if ch = c - 1 then 1 else g0 ! k ! r ! col ! ch)"
    using main_grid_cell [OF assms(1,2,4), of pattern sw] by blast
  obtain g1 where g1: "build_grid pattern sw img = Inr g1"
    and base1: "\<And>r col ch. r < h \<Longrightarrow> col < w \<Longrightarrow> ch < c \<Longrightarrow> g1 ! 0 ! r ! col ! ch =
      (if striping_coord pattern r col mod (n * sw) < sw then 1 else 0)"
    and roll1: "\<And>k. k < n \<Longrightarrow> g1 ! k = (if pattern = ''hgrid''
      then roll_axis1 (k * sw) (g1 ! 0) else roll_axis0 (k * sw) (g1 ! 0))"
    using build_grid_rolled [OF assms(1,2,5), of sw] by blast
  obtain g2 where g2: "build_grid pattern sw img = Inr g2"
    and cell2: "\<And>k r col ch. k < n \<Longrightarrow> r < h \<Longrightarrow> col < w \<Longrightarrow> ch < c \<Longrightarrow>
      g2 ! k ! r ! col ! ch =
        (if (striping_coord pattern r col mod (n * sw)) div sw = k then 1 else 0)"
    using build_grid_phase [OF assms(1,2,3,5) d] by blast
  have e1: "g1 = g0" and e2: "g2 = g0" using g(1) g1 g2 by simp_all
  note base = base1 [unfolded e1] and rolled = roll1 [unfolded e1] and cell = cell2 [unfolded e2]
  have sum0: "(\<Sum>k<n. unat (g0 ! k ! r ! col ! ch)) = 1"
    if "r < h" "col < w" "ch < c" for r col ch
  proof -
    let ?k0 = "(striping_coord pattern r col mod (n * sw)) div sw"
    have k0: "?k0 < n" using assms(2,3) by (rule phase_index_less)
    have "(\<Sum>k<n. unat (g0 ! k ! r ! col ! ch)) = (\<Sum>k<n. if k = ?k0 then 1 else 0)"
      by (rule sum.cong) (auto simp: cell [OF _ that])
    also have "\<dots> = 1" using k0 by (rule one_hot_sum)
    finally show ?thesis .
  qed
  have sum1: "(\<Sum>k<n. unat (g ! k ! r ! col ! ch)) = (if ch = c - 1 then n else 1)"
    if rc: "r < h" "col < w" "ch < c" for r col ch
  proof (cases "ch = c - 1")
    case True
    have one: "unat (g ! k ! r ! col ! ch) = 1" if "k < n" for k
    proof -
      have "g ! k ! r ! col ! ch = 1" using gc [OF that rc] True by simp
      then show ?thesis by simp
    qed
    have "(\<Sum>k<n. unat (g ! k ! r ! col ! ch)) = (\<Sum>k<n. 1)"
      by (rule sum.cong) (simp_all add: one)
    also have "\<dots> = n" by simp
    finally show ?thesis using True by simp
  next
    case False
    have same: "g ! k ! r ! col ! ch = g0 ! k ! r ! col ! ch" if "k < n" for k
      using gc [OF that rc] False by simp
    have "(\<Sum>k<n. unat (g ! k ! r ! col ! ch)) = (\<Sum>k<n. unat (g0 ! k ! r ! col ! ch))"
      by (rule sum.cong) (simp_all add: same)
    then show ?thesis using False sum0 [OF rc] by simp
  qed
  have base': "g0 ! 0 ! r ! col ! ch =
      (if striping_coord pattern r col mod (sw * n) < sw then 1 else 0)"
    if "r < h" "col < w" "ch < c" for r col ch
    using base [OF that] by (simp only: mult.commute [of sw n])
  show ?thesis
    using g rolled base' sum0 sum1 gc by blast
qed

theorem partition_property_witness:
  "\<exists>g0 g. build_grid ''hgrid'' 1 (const_stack 1 2 2 [5, 6]) = Inr g0 \<and>
     g0 = [[[[1, 1], [0, 0]]], [[[0, 0], [1, 1]]]] \<and>
     g0 ! 1 = roll_axis1 (1 * 1) (g0 ! 0) \<and>
     main_grid ''hgrid'' 1 (const_stack 1 2 2 [5, 6]) = Inr g \<and>
     (\<Sum>k<2. unat (g0 ! k ! 0 ! 0 ! 0)) = 1 \<and> (\<Sum>k<2. unat (g0 ! k ! 0 ! 1 ! 1)) = 1 \<and>
     (\<Sum>k<2. unat (g ! k ! 0 ! 0 ! 0)) = 1 \<and> (\<Sum>k<2. unat (g ! k ! 0 ! 1 ! 1)) = 2"
proof -
  have sh: "shape4 2 1 2 2 (const_stack 1 2 2 [5, 6])"
    by code_simp
  have d: "(1 * 2) dvd striping_len ''hgrid'' 1 2" by (simp add: striping_len_def)
  have p: "0 < (2::nat)" "0 < (1::nat)" "''hgrid'' = ''hgrid'' \<or> ''hgrid'' = ''vgrid''"
    by simp_all
  note t = partition_property [OF sh p(1) p(2) p(1) p(3) d]
  obtain g0 g where b:
    "build_grid ''hgrid'' 1 (const_stack 1 2 2 [5, 6]) = Inr g0 \<and> shape4 2 1 2 2 g0 \<and>
     main_grid ''hgrid'' 1 (const_stack 1 2 2 [5, 6]) = Inr g \<and> shape4 2 1 2 2 g \<and>
     (\<forall>k<2. g0 ! k = (if ''hgrid'' = ''hgrid'' then roll_axis1 (k * 1) (g0 ! 0)
                       else roll_axis0 (k * 1) (g0 ! 0))) \<and>
     (\<forall>r<1. \<forall>col<2. \<forall>ch<2.
        g0 ! 0 ! r ! col ! ch =
          (if striping_coord ''hgrid'' r col mod (1 * 2) < 1 then 1 else 0) \<and>
        (\<Sum>k<2. unat (g0 ! k ! r ! col ! ch)) = 1 \<and>
        (\<forall>k<2. g ! k ! r ! col ! ch =
           (if ch = 2 - 1 then 1 else g0 ! k ! r ! col ! ch)) \<and>
        (\<Sum>k<2. unat (g ! k ! r ! col ! ch)) = (if ch = 2 - 1 then 2 else 1))"
    using t by (elim exE) (rule that)
  note g0 = b [THEN conjunct1]
    and g = b [THEN conjunct2, THEN conjunct2, THEN conjunct1]
    and r = b [THEN conjunct2, THEN conjunct2, THEN conjunct2, THEN conjunct2, THEN conjunct1]
    and s = b [THEN conjunct2, THEN conjunct2, THEN conjunct2, THEN conjunct2, THEN conjunct2]
  have lit: "build_grid ''hgrid'' 1 (const_stack 1 2 2 [5, 6]) =
      Inr [[[[1, 1], [0, 0]]], [[[0, 0], [1, 1]]]]"
    by code_simp
  have e: "g0 = [[[[1, 1], [0, 0]]], [[[0, 0], [1, 1]]]]" using g0 lit by simp
  have r1: "g0 ! 1 = roll_axis1 (1 * 1) (g0 ! 0)" using r [rule_format, of 1] by simp
  have "(\<Sum>k<2. unat (g0 ! k ! 0 ! 0 ! 0)) = 1" "(\<Sum>k<2. unat (g ! k ! 0 ! 0 ! 0)) = 1"
    using s [rule_format, of 0 0 0] by simp_all
  moreover have "(\<Sum>k<2. unat (g0 ! k ! 0 ! 1 ! 1)) = 1"
    "(\<Sum>k<2. unat (g ! k ! 0 ! 1 ! 1)) = 2"
    using s [rule_format, of 0 1 1] by simp_all
  ultimately show ?thesis using g0 g e r1 by blast
qed

section \<open>The composite\<close>

lemma scanimate_main_cells:
  assumes "shape4 n h w c img" "0 < n" "0 < c"
  shows "\<exists>g0 grid res. build_grid pattern sw img = Inr g0 \<and> shape4 n h w c g0 \<and>
           scanimate_main np_sum pattern sw img = Inr (res, grid) \<and>
           shape4 n h w c grid \<and> shape3 h w c res \<and>
           (\<forall>k<n. \<forall>r<h. \<forall>col<w. \<forall>ch<c.
              grid ! k ! r ! col ! ch = (if ch = c - 1 then 1 else g0 ! k ! r ! col ! ch)) \<and>
           (\<forall>r<h. \<forall>col<w. \<forall>ch<c. res ! r ! col ! ch =
              (if ch = c - 1 then 255
               else astype_uint8 (np_sum (map (\<lambda>k.
                 unat (img ! k ! r ! col ! ch) * unat (grid ! k ! r ! col ! ch)) [0..<n]))))"
proof -
  obtain g0 grid where g: "build_grid pattern sw img = Inr g0" "shape4 n h w c g0"
      "main_grid pattern sw img = Inr grid" "shape4 n h w c grid"
    and gc: "\<forall>k<n. \<forall>r<h. \<forall>col<w. \<forall>ch<c.
      grid ! k ! r ! col ! ch = (if ch = c - 1 then 1 else g0 ! k ! r ! col ! ch)"
    using main_grid_cell [OF assms, of pattern sw] by blast
  obtain res where r: "main_res np_sum img grid = Inr res" "shape3 h w c res"
    and rc: "\<forall>r<h. \<forall>col<w. \<forall>ch<c. res ! r ! col ! ch =
      (if ch = c - 1 then 255
       else astype_uint8 (np_sum (map (\<lambda>k.
         unat (img ! k ! r ! col ! ch) * unat (grid ! k ! r ! col ! ch)) [0..<n])))"
    using main_res_cell [OF assms(1) g(4) assms(2,3), of np_sum] by blast
  have "scanimate_main np_sum pattern sw img = Inr (res, grid)"
    by (simp add: scanimate_main_def g(3) r(1))
  then show ?thesis using g r gc rc by blast
qed

lemma roll_set_last_commute:
  assumes "shape4 n h w c b"
  shows "roll_frames roll_axis1 sw (map (map (map (set_last v))) b) =
         map (map (map (set_last v))) (roll_frames roll_axis1 sw b)"
proof -
  let ?b' = "map (map (map (set_last v))) b"
  let ?l = "roll_frames roll_axis1 sw ?b'"
  let ?g = "roll_frames roll_axis1 sw b"
  let ?r = "map (map (map (set_last v))) ?g"
  have bs': "shape4 n h w c ?b'" using assms by (rule set_last4_shape)
  have ls: "shape4 n h w c ?l"
    by (rule roll_frames_shape [where rollf = roll_axis1, OF bs' roll_axis1_zero roll_axis1_shape])
  have gs: "shape4 n h w c ?g"
    by (rule roll_frames_shape [where rollf = roll_axis1, OF assms roll_axis1_zero roll_axis1_shape])
  have rs: "shape4 n h w c ?r" using gs by (rule set_last4_shape)
  show ?thesis
  proof (rule shape4_ext [OF ls rs])
    fix k r col ch assume a: "k < n" "r < h" "col < w" "ch < c"
    let ?col = "(w - (k * sw) mod w + col) mod w"
    have src: "?col < w" using a(3) by simp
    have lb: "k < length b" and lb': "k < length ?b'" using assms a(1) by (simp_all add: shape4_iff)
    have bk: "shape3 h w c (b ! k)" and bk': "shape3 h w c (?b' ! k)"
      using assms bs' a(1) by (simp_all add: shape4_iff)
    have "?l ! k = roll_axis1 (k * sw) (?b' ! k)"
      by (rule nth_roll_frames [where rollf = roll_axis1, OF roll_axis1_zero lb'])
    then have "?l ! k ! r ! col = ?b' ! k ! r ! ?col"
      using roll_axis1_cell [OF bk' a(2,3)] by simp
    then have l: "?l ! k ! r ! col ! ch = (if ch = c - 1 then v else b ! k ! r ! ?col ! ch)"
      using set_last4_cell [OF assms a(1,2) src a(4), of v] by simp
    have "?g ! k = roll_axis1 (k * sw) (b ! k)"
      by (rule nth_roll_frames [where rollf = roll_axis1, OF roll_axis1_zero lb])
    then have "?g ! k ! r ! col = b ! k ! r ! ?col"
      using roll_axis1_cell [OF bk a(2,3)] by simp
    then have "?r ! k ! r ! col ! ch = (if ch = c - 1 then v else b ! k ! r ! ?col ! ch)"
      using set_last4_cell [OF gs a, of v] by simp
    then show "?l ! k ! r ! col ! ch = ?r ! k ! r ! col ! ch" using l by simp
  qed
qed

lemma moire_main_eq:
  assumes "shape4 n h w c img" "0 < n" "0 < c"
  shows "moire_main np_sum sw img = scanimate_main np_sum ''hgrid'' sw img"
proof -
  let ?b = "fold (\<lambda>i g. hgrid_assign i (n * sw) g) [0..<sw] (zeros_like img)"
  let ?g = "roll_frames roll_axis1 sw ?b"
  have len: "length img = n" using assms(1) by (simp add: shape4_iff)
  have bs: "shape4 n h w c ?b"
    by (rule hgrid_loop_shape [OF zeros_like_shape [OF assms(1)]])
  have gs: "shape4 n h w c ?g"
    by (rule roll_frames_shape [where rollf = roll_axis1, OF bs roll_axis1_zero roll_axis1_shape])
  have eq: "build_grid ''hgrid'' sw img = Inr ?g"
    using assms(2) len by (auto simp: build_grid_def Let_def)
  have mg: "main_grid ''hgrid'' sw img = Inr (map (map (map (set_last 1))) ?g)"
    by (simp add: main_grid_def eq last_assign4_ok [OF gs assms(3)])
  have "moire_main np_sum sw img =
      (case main_res np_sum img (roll_frames roll_axis1 sw (map (map (map (set_last 1))) ?b)) of
         Inl e \<Rightarrow> Inl e
       | Inr res \<Rightarrow> Inr (res, roll_frames roll_axis1 sw (map (map (map (set_last 1))) ?b)))"
    using assms(2) by (auto simp: moire_main_def Let_def len last_assign4_ok [OF bs assms(3)])
  also have "roll_frames roll_axis1 sw (map (map (map (set_last 1))) ?b) =
      map (map (map (set_last 1))) ?g"
    using bs by (rule roll_set_last_commute)
  finally show ?thesis by (simp add: scanimate_main_def mg)
qed

text \<open>
  C6, alpha forcing. For every stack of at least one frame with four channels, every
  pattern and stripe width, and whatever the float32 sum does: the computation returns, in
  every phase grid the cell of channel 3 is 1 at every pixel, and in the composite the cell
  of channel 3 is 255 at every pixel; the frames' own alpha values play no part. The
  script block of \<^verbatim>\<open>moire.py\<close> computes what the \<^verbatim>\<open>hgrid\<close> branch computes.
\<close>

theorem alpha_forcing:
  assumes "shape4 n h w 4 img" "0 < n"
  shows "(\<exists>res grid. scanimate_main np_sum pattern sw img = Inr (res, grid) \<and>
            shape4 n h w 4 grid \<and> shape3 h w 4 res \<and>
            (\<forall>k<n. \<forall>r<h. \<forall>col<w. grid ! k ! r ! col ! 3 = 1) \<and>
            (\<forall>r<h. \<forall>col<w. res ! r ! col ! 3 = 255)) \<and>
         moire_main np_sum sw img = scanimate_main np_sum ''hgrid'' sw img"
proof -
  have c: "0 < (4::nat)" by simp
  obtain g0 grid res where s: "scanimate_main np_sum pattern sw img = Inr (res, grid)"
      "shape4 n h w 4 grid" "shape3 h w 4 res"
    and gc: "\<And>k r col ch. k < n \<Longrightarrow> r < h \<Longrightarrow> col < w \<Longrightarrow> ch < 4 \<Longrightarrow>
      grid ! k ! r ! col ! ch = (if ch = 4 - 1 then 1 else g0 ! k ! r ! col ! ch)"
    and rc: "\<And>r col ch. r < h \<Longrightarrow> col < w \<Longrightarrow> ch < 4 \<Longrightarrow> res ! r ! col ! ch =
      (if ch = 4 - 1 then 255
       else astype_uint8 (np_sum (map (\<lambda>k.
         unat (img ! k ! r ! col ! ch) * unat (grid ! k ! r ! col ! ch)) [0..<n])))"
    using scanimate_main_cells [OF assms c, of pattern sw np_sum] by blast
  have three: "(3::nat) < 4" by simp
  have a: "grid ! k ! r ! col ! 3 = 1" if "k < n" "r < h" "col < w" for k r col
    using gc [OF that three] by simp
  have b: "res ! r ! col ! 3 = 255" if "r < h" "col < w" for r col
    using rc [OF that three] by simp
  have "moire_main np_sum sw img = scanimate_main np_sum ''hgrid'' sw img"
    using assms c by (rule moire_main_eq)
  then show ?thesis using s a b by blast
qed

theorem alpha_forcing_witness:
  "\<exists>res grid. scanimate_main sum_list ''hgrid'' 1
       [[[[1, 2, 3, 0], [4, 5, 6, 7]]], [[[8, 9, 10, 128], [11, 12, 13, 255]]]] =
       Inr (res, grid) \<and>
     moire_main sum_list 1
       [[[[1, 2, 3, 0], [4, 5, 6, 7]]], [[[8, 9, 10, 128], [11, 12, 13, 255]]]] =
       Inr (res, grid) \<and>
     res = [[[1, 2, 3, 255], [11, 12, 13, 255]]] \<and>
     grid ! 0 ! 0 ! 0 ! 3 = 1 \<and> grid ! 0 ! 0 ! 1 ! 3 = 1 \<and>
     grid ! 1 ! 0 ! 0 ! 3 = 1 \<and> grid ! 1 ! 0 ! 1 ! 3 = 1 \<and>
     res ! 0 ! 0 ! 3 = 255 \<and> res ! 0 ! 1 ! 3 = 255"
proof -
  let ?img = "[[[[1, 2, 3, 0], [4, 5, 6, 7]]], [[[8, 9, 10, 128], [11, 12, 13, 255]]]]
    :: 8 word list list list list"
  have sh: "shape4 2 1 2 4 ?img" by code_simp
  have p: "0 < (2::nat)" by simp
  note t = alpha_forcing [OF sh p, of sum_list "''hgrid''" 1, THEN conjunct1]
    and m = alpha_forcing [OF sh p, of sum_list "''hgrid''" 1, THEN conjunct2]
  obtain res grid where b:
    "scanimate_main sum_list ''hgrid'' 1 ?img = Inr (res, grid) \<and>
     shape4 2 1 2 4 grid \<and> shape3 1 2 4 res \<and>
     (\<forall>k<2. \<forall>r<1. \<forall>col<2. grid ! k ! r ! col ! 3 = 1) \<and>
     (\<forall>r<1. \<forall>col<2. res ! r ! col ! 3 = 255)"
    using t by (elim exE) (rule that)
  note s = b [THEN conjunct1]
    and gc = b [THEN conjunct2, THEN conjunct2, THEN conjunct2, THEN conjunct1]
    and rc = b [THEN conjunct2, THEN conjunct2, THEN conjunct2, THEN conjunct2]
  have lit: "scanimate_main sum_list ''hgrid'' 1 ?img =
      Inr ([[[1, 2, 3, 255], [11, 12, 13, 255]]],
           [[[[1, 1, 1, 1], [0, 0, 0, 1]]], [[[0, 0, 0, 1], [1, 1, 1, 1]]]])"
    by code_simp
  have e: "res = [[[1, 2, 3, 255], [11, 12, 13, 255]]]" using s lit by simp
  have g: "grid ! 0 ! 0 ! 0 ! 3 = 1" "grid ! 0 ! 0 ! 1 ! 3 = 1"
    "grid ! 1 ! 0 ! 0 ! 3 = 1" "grid ! 1 ! 0 ! 1 ! 3 = 1"
    using gc [rule_format, of 0 0 0] gc [rule_format, of 0 0 1]
      gc [rule_format, of 1 0 0] gc [rule_format, of 1 0 1] by simp_all
  have r: "res ! 0 ! 0 ! 3 = 255" "res ! 0 ! 1 ! 3 = 255"
    using rc [rule_format, of 0 0] rc [rule_format, of 0 1] by simp_all
  have ms: "moire_main sum_list 1 ?img = Inr (res, grid)" using m s by simp
  show ?thesis using s ms e g r by blast
qed

lemma build_grid_le_one:
  assumes "shape4 n h w c img" "0 < n" "k < n" "r < h" "col < w" "ch < c"
    and "build_grid pattern sw img = Inr g"
  shows "unat (g ! k ! r ! col ! ch) \<le> 1"
proof (cases "pattern = ''hgrid'' \<or> pattern = ''vgrid''")
  case True
  obtain g' where g': "build_grid pattern sw img = Inr g'"
    and cell: "\<And>k r col ch. k < n \<Longrightarrow> r < h \<Longrightarrow> col < w \<Longrightarrow> ch < c \<Longrightarrow>
      g' ! k ! r ! col ! ch =
        (if ((striping_len pattern h w - (k * sw) mod striping_len pattern h w
               + striping_coord pattern r col) mod striping_len pattern h w)
             mod (n * sw) < sw
         then 1 else 0)"
    using build_grid_striped [OF assms(1,2) True, of sw] by blast
  have "g' = g" using g' assms(7) by simp
  then show ?thesis using cell [OF assms(3-6)] by simp
next
  case False
  then have "build_grid pattern sw img = Inr (zeros_like img)"
    using build_grid_other [OF assms(1), of pattern sw] by simp
  then have "g = zeros_like img" using assms(7) by simp
  then show ?thesis using zeros_like_cell [OF assms(1,3-6)] by simp
qed

lemma sum_le_255:
  fixes f :: "nat \<Rightarrow> nat"
  assumes "\<And>k. k < n \<Longrightarrow> f k \<le> 255" "n \<le> 65793"
  shows "(\<Sum>k<n. f k) < 2 ^ 24"
proof -
  have "(\<Sum>k<n. f k) \<le> (\<Sum>k<n. 255)" by (rule sum_mono) (simp add: assms(1))
  also have "\<dots> = n * 255" by simp
  also have "\<dots> \<le> 65793 * 255" using assms(2) by simp
  also have "\<dots> < 2 ^ 24" by simp
  finally show ?thesis .
qed

lemma one_hot_pick:
  fixes k0 n :: nat and f :: "nat \<Rightarrow> nat"
  assumes "k0 < n"
  shows "(\<Sum>k<n. f k * (if k = k0 then 1 else 0)) = f k0"
proof -
  have "(\<Sum>k<n. f k * (if k = k0 then 1 else 0)) = (\<Sum>k\<in>{..<n}. if k = k0 then f k0 else 0)"
    by (rule sum.cong) simp_all
  also have "\<dots> = f k0" using assms by (simp add: sum.delta)
  finally show ?thesis .
qed

text \<open>
  C7, the narrowing. As stated, with clamping, it fails: nothing clips the sum before
  \<^verbatim>\<open>astype(np.uint8)\<close>. On a width of 4 with three frames and stripe width 1, phases 0
  and 1 are both visible at column 0; with frames of value 200 the float32 sum there is
  400, exactly, and the composite holds 144, which is 400 modulo 256, not 255.
\<close>

theorem narrowing_counterexample:
  "scanimate_main sum_list ''hgrid'' 1 (const_stack 1 4 2 [200, 200, 200]) =
     Inr ([[[144, 255], [144, 255], [200, 255], [200, 255]]],
          [[[[1, 1], [0, 1], [0, 1], [1, 1]]],
           [[[1, 1], [1, 1], [0, 1], [0, 1]]],
           [[[0, 1], [1, 1], [1, 1], [0, 1]]]]) \<and>
   (200::nat) + 200 = 400 \<and> (400::nat) mod 256 = 144"
  by code_simp

text \<open>
  C7 as amended. For every stack of at least one and at most 65793 frames with at least
  one channel, every pattern and stripe width, and every float32 sum (exact below
  \<open>2 ^ 24\<close>): the computation returns; at every cell the exact sum of the masked frames
  is below \<open>2 ^ 24\<close>, so the accumulation loses nothing; the composite holds 255 on the
  last channel and that sum modulo 256 on the others: the narrowing wraps, it does not
  clamp. When the stripe width is at least 1 and stripe width times frame count divides
  the length of the striping axis, the cell on a channel other than the last is the cell
  of the one frame visible there, unchanged. The script block of \<^verbatim>\<open>moire.py\<close>
  computes what the \<^verbatim>\<open>hgrid\<close> branch computes.
\<close>

theorem narrowing_wraps:
  assumes "shape4 n h w c img" "0 < n" "0 < c"
    and "float32_exact np_sum" "n \<le> 65793"
  shows "moire_main np_sum sw img = scanimate_main np_sum ''hgrid'' sw img \<and>
         (\<exists>res grid. scanimate_main np_sum pattern sw img = Inr (res, grid) \<and>
           shape4 n h w c grid \<and> shape3 h w c res \<and>
           (\<forall>r<h. \<forall>col<w. \<forall>ch<c.
              (\<Sum>k<n. unat (img ! k ! r ! col ! ch) * unat (grid ! k ! r ! col ! ch)) < 2 ^ 24 \<and>
              unat (res ! r ! col ! ch) =
                (if ch = c - 1 then 255
                 else (\<Sum>k<n. unat (img ! k ! r ! col ! ch) * unat (grid ! k ! r ! col ! ch))
                        mod 256)) \<and>
           (0 < sw \<and> (pattern = ''hgrid'' \<or> pattern = ''vgrid'') \<and>
            (sw * n) dvd striping_len pattern h w \<longrightarrow>
              (\<forall>r<h. \<forall>col<w. \<forall>ch<c. ch \<noteq> c - 1 \<longrightarrow>
                 res ! r ! col ! ch =
                   img ! ((striping_coord pattern r col mod (sw * n)) div sw) ! r ! col ! ch)))"
proof -
  obtain g0 grid res where g0: "build_grid pattern sw img = Inr g0"
    and s: "scanimate_main np_sum pattern sw img = Inr (res, grid)"
      "shape4 n h w c grid" "shape3 h w c res"
    and gc: "\<And>k r col ch. k < n \<Longrightarrow> r < h \<Longrightarrow> col < w \<Longrightarrow> ch < c \<Longrightarrow>
      grid ! k ! r ! col ! ch = (if ch = c - 1 then 1 else g0 ! k ! r ! col ! ch)"
    and rc: "\<And>r col ch. r < h \<Longrightarrow> col < w \<Longrightarrow> ch < c \<Longrightarrow> res ! r ! col ! ch =
      (if ch = c - 1 then 255
       else astype_uint8 (np_sum (map (\<lambda>k.
         unat (img ! k ! r ! col ! ch) * unat (grid ! k ! r ! col ! ch)) [0..<n])))"
    using scanimate_main_cells [OF assms(1-3), of pattern sw np_sum] by blast
  have le1: "unat (grid ! k ! r ! col ! ch) \<le> 1"
    if "k < n" "r < h" "col < w" "ch < c" for k r col ch
    using gc [OF that] build_grid_le_one [OF assms(1,2) that g0] by simp
  have bound: "(\<Sum>k<n. unat (img ! k ! r ! col ! ch) * unat (grid ! k ! r ! col ! ch)) < 2 ^ 24"
    if rcc: "r < h" "col < w" "ch < c" for r col ch
  proof (rule sum_le_255 [OF _ assms(5)])
    fix k assume k: "k < n"
    have "unat (img ! k ! r ! col ! ch) \<le> 255"
      using unsigned_less [of "img ! k ! r ! col ! ch", where ?'a = nat] by simp
    moreover have "unat (grid ! k ! r ! col ! ch) \<le> 1" using k rcc by (rule le1)
    ultimately have "unat (img ! k ! r ! col ! ch) * unat (grid ! k ! r ! col ! ch) \<le> 255 * 1"
      by (rule mult_le_mono)
    then show "unat (img ! k ! r ! col ! ch) * unat (grid ! k ! r ! col ! ch) \<le> 255" by simp
  qed
  have val: "unat (res ! r ! col ! ch) =
      (if ch = c - 1 then 255
       else (\<Sum>k<n. unat (img ! k ! r ! col ! ch) * unat (grid ! k ! r ! col ! ch)) mod 256)"
    if rcc: "r < h" "col < w" "ch < c" for r col ch
  proof -
    have "np_sum (map (\<lambda>k. unat (img ! k ! r ! col ! ch) * unat (grid ! k ! r ! col ! ch))
        [0..<n]) = (\<Sum>k<n. unat (img ! k ! r ! col ! ch) * unat (grid ! k ! r ! col ! ch))"
      using assms(4) bound [OF rcc] by (rule np_sum_exact)
    then have e: "res ! r ! col ! ch = (if ch = c - 1 then 255 else astype_uint8
        (\<Sum>k<n. unat (img ! k ! r ! col ! ch) * unat (grid ! k ! r ! col ! ch)))"
      using rc [OF rcc] by simp
    have w: "unat (astype_uint8 x) = x mod 256" for x
      by (simp add: astype_uint8_def unat_of_nat)
    show ?thesis
    proof (cases "ch = c - 1")
      case True
      then have "res ! r ! col ! ch = 255" using e by simp
      then show ?thesis using True by simp
    next
      case False
      then have "res ! r ! col ! ch = astype_uint8
          (\<Sum>k<n. unat (img ! k ! r ! col ! ch) * unat (grid ! k ! r ! col ! ch))"
        using e by simp
      then show ?thesis using False by (simp only: w if_False)
    qed
  qed
  have pick: "res ! r ! col ! ch =
      img ! ((striping_coord pattern r col mod (sw * n)) div sw) ! r ! col ! ch"
    if h: "0 < sw" "pattern = ''hgrid'' \<or> pattern = ''vgrid''"
      "(sw * n) dvd striping_len pattern h w"
      and rcc: "r < h" "col < w" "ch < c" and nl: "ch \<noteq> c - 1" for r col ch
  proof -
    let ?k0 = "(striping_coord pattern r col mod (n * sw)) div sw"
    have d: "(n * sw) dvd striping_len pattern h w" using h(3) by (simp add: mult.commute)
    obtain g2 where g2: "build_grid pattern sw img = Inr g2"
      and cell2: "\<And>k r col ch. k < n \<Longrightarrow> r < h \<Longrightarrow> col < w \<Longrightarrow> ch < c \<Longrightarrow>
        g2 ! k ! r ! col ! ch =
          (if (striping_coord pattern r col mod (n * sw)) div sw = k then 1 else 0)"
      using build_grid_phase [OF assms(1,2) h(1,2) d] by blast
    have e2: "g2 = g0" using g0 g2 by simp
    have k0: "?k0 < n" using assms(2) h(1) by (rule phase_index_less)
    have gk: "unat (grid ! k ! r ! col ! ch) = (if k = ?k0 then 1 else 0)" if "k < n" for k
      using gc [OF that rcc] cell2 [OF that rcc] nl e2 by auto
    have "(\<Sum>k<n. unat (img ! k ! r ! col ! ch) * unat (grid ! k ! r ! col ! ch)) =
        (\<Sum>k<n. unat (img ! k ! r ! col ! ch) * (if k = ?k0 then 1 else 0))"
      by (rule sum.cong) (simp_all add: gk)
    also have "\<dots> = unat (img ! ?k0 ! r ! col ! ch)" using k0 by (rule one_hot_pick)
    finally have "unat (res ! r ! col ! ch) = unat (img ! ?k0 ! r ! col ! ch) mod 256"
      using val [OF rcc] nl by simp
    moreover have "unat (img ! ?k0 ! r ! col ! ch) < 256"
      using unsigned_less [of "img ! ?k0 ! r ! col ! ch", where ?'a = nat] by simp
    ultimately have "unat (res ! r ! col ! ch) = unat (img ! ?k0 ! r ! col ! ch)" by simp
    then have "res ! r ! col ! ch = img ! ?k0 ! r ! col ! ch" by (simp only: word_unat_eq_iff)
    then show ?thesis by (simp only: mult.commute [of sw n])
  qed
  have "moire_main np_sum sw img = scanimate_main np_sum ''hgrid'' sw img"
    using assms(1-3) by (rule moire_main_eq)
  then show ?thesis using s bound val pick by blast
qed

theorem narrowing_wraps_witness:
  "\<exists>res grid. scanimate_main sum_list ''hgrid'' 1 (const_stack 1 4 2 [250, 7]) =
       Inr (res, grid) \<and>
     res = [[[250, 255], [7, 255], [250, 255], [7, 255]]] \<and>
     res ! 0 ! 0 ! 0 = const_stack 1 4 2 [250, 7] ! 0 ! 0 ! 0 ! 0 \<and>
     res ! 0 ! 1 ! 0 = const_stack 1 4 2 [250, 7] ! 1 ! 0 ! 1 ! 0 \<and>
     unat (res ! 0 ! 1 ! 1) = 255"
proof -
  let ?img = "const_stack 1 4 2 [250, 7] :: 8 word list list list list"
  have sh: "shape4 2 1 4 2 ?img" by code_simp
  have p: "0 < (2::nat)" "(2::nat) \<le> 65793" by simp_all
  note t = narrowing_wraps [OF sh p(1) p(1) float32_exact_sum_list p(2), of 1 "''hgrid''",
    THEN conjunct2]
  obtain res grid where b:
    "scanimate_main sum_list ''hgrid'' 1 ?img = Inr (res, grid) \<and>
     shape4 2 1 4 2 grid \<and> shape3 1 4 2 res \<and>
     (\<forall>r<1. \<forall>col<4. \<forall>ch<2.
        (\<Sum>k<2. unat (?img ! k ! r ! col ! ch) * unat (grid ! k ! r ! col ! ch)) < 2 ^ 24 \<and>
        unat (res ! r ! col ! ch) =
          (if ch = 2 - 1 then 255
           else (\<Sum>k<2. unat (?img ! k ! r ! col ! ch) * unat (grid ! k ! r ! col ! ch))
                  mod 256)) \<and>
     (0 < (1::nat) \<and> (''hgrid'' = ''hgrid'' \<or> ''hgrid'' = ''vgrid'') \<and>
      (1 * 2) dvd striping_len ''hgrid'' 1 4 \<longrightarrow>
        (\<forall>r<1. \<forall>col<4. \<forall>ch<2. ch \<noteq> 2 - 1 \<longrightarrow>
           res ! r ! col ! ch =
             ?img ! ((striping_coord ''hgrid'' r col mod (1 * 2)) div 1) ! r ! col ! ch))"
    using t by (elim exE) (rule that)
  note s = b [THEN conjunct1]
    and v = b [THEN conjunct2, THEN conjunct2, THEN conjunct2, THEN conjunct1]
    and q = b [THEN conjunct2, THEN conjunct2, THEN conjunct2, THEN conjunct2]
  have d: "0 < (1::nat) \<and> (''hgrid'' = ''hgrid'' \<or> ''hgrid'' = ''vgrid'') \<and>
      (1 * 2) dvd striping_len ''hgrid'' 1 4"
    by (simp add: striping_len_def)
  note q' = q [rule_format, OF d]
  have lit: "scanimate_main sum_list ''hgrid'' 1 ?img =
      Inr ([[[250, 255], [7, 255], [250, 255], [7, 255]]],
           [[[[1, 1], [0, 1], [1, 1], [0, 1]]], [[[0, 1], [1, 1], [0, 1], [1, 1]]]])"
    by code_simp
  have e: "res = [[[250, 255], [7, 255], [250, 255], [7, 255]]]" using s lit by simp
  have a0: "res ! 0 ! 0 ! 0 = ?img ! 0 ! 0 ! 0 ! 0"
    using q' [of 0 0 0] by (simp add: striping_coord_def)
  have a1: "res ! 0 ! 1 ! 0 = ?img ! 1 ! 0 ! 1 ! 0"
    using q' [of 0 1 0] by (simp add: striping_coord_def)
  have a2: "unat (res ! 0 ! 1 ! 1) = 255"
    using v [rule_format, of 0 1 1] by simp
  show ?thesis using s e a0 a1 a2 by blast
qed


end
